(* ===== verification/Prelude.thy ===== *)
theory Prelude
  imports Complex_Main "HOL-Library.Word" "HOL-Library.AList"
begin

text \<open>
  Shared vocabulary of the development: the machine integers of the Rust sources as words,
  byte strings, the big-endian integer codecs of the standard library
  (\<^verbatim>\<open>to_be_bytes\<close>, \<^verbatim>\<open>from_be_bytes\<close>, \<^verbatim>\<open>put_u16\<close>, \<^verbatim>\<open>get_u32\<close>, \<dots>), and the facts about
  lists and association lists that several components use.
\<close>

unbundle bit_operations_syntax

named_theorems wire \<open>layout facts: lengths and round trips of encoded fields\<close>

section \<open>Machine integers and byte strings\<close>

type_synonym u8 = "8 word"
type_synonym u16 = "16 word"
type_synonym u32 = "32 word"
type_synonym u64 = "64 word"
type_synonym u128 = "128 word"
type_synonym bytes = "u8 list"

text \<open>
  \<open>to_be n w\<close> writes the low \<open>n\<close> bytes of \<open>w\<close>, most significant first; \<open>of_be\<close> reads them back.
\<close>

definition to_be :: "nat \<Rightarrow> 'a::len word \<Rightarrow> bytes" where
  "to_be n w = map (\<lambda>i. ucast (drop_bit (8 * i) w)) (rev [0..<n])"

definition of_be :: "bytes \<Rightarrow> 'a::len word" where
  "of_be bs = foldl (\<lambda>acc b. push_bit 8 acc OR ucast b) 0 bs"

lemma length_to_be [simp, wire]: "length (to_be n w) = n"
  by (simp add: to_be_def)

lemma of_be_snoc: "of_be (bs @ [b]) = push_bit 8 (of_be bs) OR ucast b"
  by (simp add: of_be_def)

lemma bit_of_be:
  "bit (of_be bs :: 'a::len word) k \<longleftrightarrow>
     k < LENGTH('a) \<and> k div 8 < length bs \<and> bit (rev bs ! (k div 8)) (k mod 8)"
proof (induction bs arbitrary: k rule: rev_induct)
  case Nil
  then show ?case by (simp add: of_be_def)
next
  case (snoc b bs)
  show ?case
  proof (cases "k < 8")
    case True
    then show ?thesis by (simp add: of_be_snoc bit_simps)
  next
    case False
    then obtain j where k: "k = j + 8" by (metis add.commute le_Suc_ex not_less)
    have "(j + 8) div 8 = Suc (j div 8)" and "\<not> bit b (j + 8)"
      by (simp_all add: bit_word.rep_eq)
    then show ?thesis using snoc.IH[of j]
      by (auto simp add: of_be_snoc bit_simps k dest: bit_imp_le_length)
  qed
qed

lemma rev_to_be_nth: "i < n \<Longrightarrow> rev (to_be n w) ! i = ucast (drop_bit (8 * i) w)"
  by (simp add: to_be_def rev_map)

lemma of_be_to_be: "LENGTH('a) \<le> 8 * n \<Longrightarrow> of_be (to_be n w) = (w :: 'a::len word)"
proof (rule bit_word_eqI)
  fix k assume n: "LENGTH('a) \<le> 8 * n" and k: "k < LENGTH('a)"
  then have kn: "k div 8 < n" by (simp add: div_less_iff_less_mult mult.commute)
  have "8 * (k div 8) + k mod 8 = k" by simp
  with k kn show "bit (of_be (to_be n w) :: 'a word) k = bit w k"
    by (simp add: bit_of_be rev_to_be_nth bit_simps)
qed

lemma to_be_of_be:
  assumes "8 * length bs \<le> LENGTH('a)"
  shows "to_be (length bs) (of_be bs :: 'a::len word) = bs"
proof -
  have "rev (to_be (length bs) (of_be bs :: 'a word)) = rev bs"
  proof (rule nth_equalityI)
    fix i assume "i < length (rev (to_be (length bs) (of_be bs :: 'a word)))"
    then have i: "i < length bs" by simp
    show "rev (to_be (length bs) (of_be bs :: 'a word)) ! i = rev bs ! i"
    proof (rule bit_word_eqI)
      fix k assume k: "k < LENGTH(8)"
      then have "(8 * i + k) div 8 = i" "(8 * i + k) mod 8 = k" by simp_all
      moreover have "8 * i + k < LENGTH('a)" using i k assms by simp
      ultimately show "bit (rev (to_be (length bs) (of_be bs :: 'a word)) ! i) k = bit (rev bs ! i) k"
        using i k by (simp add: rev_to_be_nth bit_simps bit_of_be)
    qed
  qed simp
  then show ?thesis by simp
qed

lemma of_be_to_be_16 [simp, wire]: "of_be (to_be 2 w) = (w :: u16)"
  by (simp add: of_be_to_be)

lemma of_be_to_be_32 [simp, wire]: "of_be (to_be 4 w) = (w :: u32)"
  by (simp add: of_be_to_be)

lemma of_be_to_be_64 [simp, wire]: "of_be (to_be 8 w) = (w :: u64)"
  by (simp add: of_be_to_be)

lemma to_be_inject:
  "LENGTH('a) \<le> 8 * n \<Longrightarrow> to_be n v = to_be n w \<longleftrightarrow> v = (w :: 'a::len word)"
  by (metis of_be_to_be)

section \<open>Lists\<close>

lemma take_drop_append: "take n (drop i xs) @ drop (i + n) xs = drop i xs"
  by (metis add.commute append_take_drop_id drop_drop)

lemma nth_Cons_drop: "i < length xs \<Longrightarrow> [xs ! i] @ drop (Suc i) xs = drop i xs"
  by (simp add: Cons_nth_drop_Suc)

section \<open>Arithmetic\<close>

lemma mod_add_cancel_le:
  fixes i j m r :: nat
  assumes "(r + i) mod m = (r + j) mod m" and "i \<le> j" and "j < m"
  shows "i = j"
proof -
  have "m dvd j - i"
    using mod_eq_dvd_iff_nat [of "r + i" "r + j" m] assms by simp
  then have "j - i = 0" using assms(3) by (meson dvd_imp_le leD less_imp_diff_less not_gr_zero)
  with assms(2) show ?thesis by simp
qed

lemma mod_add_cancel_less:
  fixes i j m r :: nat
  assumes "(r + i) mod m = (r + j) mod m" and "i < m" and "j < m"
  shows "i = j"
  using mod_add_cancel_le [of r i m j] mod_add_cancel_le [of r j m i] assms by linarith

end
