(* ===== verification/Media_Keys.thy ===== *)
theory Media_Keys
  imports Prelude
begin

text \<open>
  The session media keys of \<^verbatim>\<open>aurix-common/src/crypto.rs\<close>: key derivation, the per-packet
  initialisation vector, and the application of the AES-256-CTR key stream.

  The MAC (crate \<^verbatim>\<open>hmac\<close> over SHA-256) and the CTR key stream (crates \<^verbatim>\<open>aes\<close> and
  \<^verbatim>\<open>ctr\<close>) are not part of the repository: they are the parameters \<open>H\<close> (key, message to
  digest) and \<open>ks\<close> (cipher key, IV, byte position to key stream byte). What is proved about IVs:
  they are injective in the four header fields they are built from, and the 128-bit counter
  blocks two packets of one session consume never coincide.
\<close>

unbundle bit_operations_syntax

type_synonym mac = "bytes \<Rightarrow> bytes \<Rightarrow> bytes"
type_synonym keystream = "bytes \<Rightarrow> bytes \<Rightarrow> nat \<Rightarrow> u8"

section \<open>Definitions\<close>

record media_keys =
  mk_auth :: bytes
  mk_cipher :: bytes
  mk_salt :: bytes

text \<open>The bytes of an ASCII literal (\<^verbatim>\<open>b"..."\<close>).\<close>

definition ascii :: "string \<Rightarrow> bytes" where
  "ascii s = map of_char s"

definition hmac_sha256 :: "mac \<Rightarrow> bytes \<Rightarrow> bytes list \<Rightarrow> bytes" where
  "hmac_sha256 H key parts = H key (concat parts)"

definition constant_time_eq :: "bytes \<Rightarrow> bytes \<Rightarrow> bool" where
  "constant_time_eq a b = (if length a \<noteq> length b then False else a = b)"

definition derive :: "mac \<Rightarrow> bytes \<Rightarrow> media_keys" where
  "derive H master =
     \<lparr> mk_auth = hmac_sha256 H master [ascii ''AURXv2 auth''],
       mk_cipher = hmac_sha256 H master [ascii ''AURXv2 enc''],
       mk_salt = take 16 (hmac_sha256 H master [ascii ''AURXv2 salt'']) \<rparr>"

text \<open>The unsalted IV block: type, zero byte, SSRC, sequence, timestamp, two zero bytes.\<close>

definition iv_block :: "u8 \<Rightarrow> u32 \<Rightarrow> u32 \<Rightarrow> u32 \<Rightarrow> bytes" where
  "iv_block packet_type ssrc sequence timestamp =
     [packet_type, 0] @ to_be 4 ssrc @ to_be 4 sequence @ to_be 4 timestamp @ [0, 0]"

definition iv :: "media_keys \<Rightarrow> u8 \<Rightarrow> u32 \<Rightarrow> u32 \<Rightarrow> u32 \<Rightarrow> bytes" where
  "iv keys packet_type ssrc sequence timestamp =
     map2 (XOR) (iv_block packet_type ssrc sequence timestamp) (mk_salt keys)"

definition apply_ctr :: "keystream \<Rightarrow> media_keys \<Rightarrow> bytes \<Rightarrow> bytes \<Rightarrow> bytes" where
  "apply_ctr ks keys v data =
     (if data = [] then []
      else map2 (\<lambda>i d. d XOR ks (mk_cipher keys) v i) [0..<length data] data)"

section \<open>Key stream application\<close>

lemma length_apply_ctr [simp, wire]: "length (apply_ctr ks keys v data) = length data"
  by (simp add: apply_ctr_def)

lemma apply_ctr_nth:
  "i < length data \<Longrightarrow> apply_ctr ks keys v data ! i = data ! i XOR ks (mk_cipher keys) v i"
  by (auto simp: apply_ctr_def)

lemma apply_ctr_involution [simp]: "apply_ctr ks keys v (apply_ctr ks keys v data) = data"
  by (rule nth_equalityI) (simp_all add: apply_ctr_nth xor.assoc)

section \<open>Initialisation vectors\<close>

lemma length_iv_block [simp]: "length (iv_block t s q ts) = 16"
  by (simp add: iv_block_def)

lemma length_iv: "length (mk_salt keys) = 16 \<Longrightarrow> length (iv keys t s q ts) = 16"
  by (simp add: iv_def)

lemma map2_xor_cancel:
  assumes "map2 (XOR) xs zs = map2 (XOR) ys (zs :: 'a::len word list)"
    and "length xs = length zs" and "length ys = length zs"
  shows "xs = ys"
proof (rule nth_equalityI)
  fix i assume i: "i < length xs"
  then have "xs ! i XOR zs ! i = ys ! i XOR zs ! i"
    using arg_cong [OF assms(1), of "\<lambda>l. l ! i"] assms(2,3) by simp
  then have "(xs ! i XOR zs ! i) XOR zs ! i = (ys ! i XOR zs ! i) XOR zs ! i" by simp
  then show "xs ! i = ys ! i" by (simp add: xor.assoc)
qed (use assms in simp)

lemma iv_block_inject:
  "iv_block t s q ts = iv_block t' s' q' ts' \<longleftrightarrow> t = t' \<and> s = s' \<and> q = q' \<and> ts = ts'"
  by (auto simp: iv_block_def to_be_inject)

lemma iv_inject:
  assumes "length (mk_salt keys) = 16"
  shows "iv keys t s q ts = iv keys t' s' q' ts' \<longleftrightarrow> t = t' \<and> s = s' \<and> q = q' \<and> ts = ts'"
  using map2_xor_cancel [of "iv_block t s q ts" "mk_salt keys" "iv_block t' s' q' ts'"] assms
  by (auto simp: iv_def iv_block_inject)

text \<open>The two trailing bytes of every IV of a session are those of its salt.\<close>

lemma iv_trailing:
  assumes "length (mk_salt keys) = 16" and "n < 2"
  shows "rev (iv keys t s q ts) ! n = rev (mk_salt keys) ! n"
proof -
  have "n = 0 \<or> n = 1" using assms(2) by auto
  with assms(1) show ?thesis
    by (auto simp: iv_def rev_nth iv_block_def nth_append nth_Cons')
qed

lemma iv_low_bits:
  assumes "length (mk_salt keys) = 16"
  shows "take_bit 16 (of_be (iv keys t s q ts) :: u128) = take_bit 16 (of_be (mk_salt keys))"
proof (rule bit_word_eqI)
  fix k
  show "bit (take_bit 16 (of_be (iv keys t s q ts) :: u128)) k =
        bit (take_bit 16 (of_be (mk_salt keys) :: u128)) k"
  proof (cases "k < 16")
    case True
    then have "k div 8 < 2" by simp
    with assms True show ?thesis
      by (simp add: bit_simps bit_of_be length_iv iv_trailing)
  qed (simp add: bit_simps)
qed

lemma unat_take_bit_16: "unat (take_bit 16 (x :: u128)) = unat x mod 65536"
  by (simp only: unsigned_take_bit_eq) (simp add: take_bit_eq_mod)

lemma counter_offsets_apart:
  fixes v w :: u128
  assumes low: "take_bit 16 v = take_bit 16 w"
    and i: "i < 65536" and j: "j < 65536"
    and eq: "v + of_nat i = w + of_nat j"
  shows "v = w"
proof -
  have sum: "unat (x + of_nat n) mod 65536 = (unat x mod 65536 + n) mod 65536"
    if "n < 65536" for x :: u128 and n
    using that by (simp add: unat_word_ariths unat_of_nat mod_mod_cancel mod_simps)
  have "unat v mod 65536 = unat w mod 65536"
    using low by (metis unat_take_bit_16)
  moreover have "(unat v mod 65536 + i) mod 65536 = (unat w mod 65536 + j) mod 65536"
    using sum [OF i, of v] sum [OF j, of w] eq by simp
  ultimately have "(unat v mod 65536 + i) mod 65536 = (unat v mod 65536 + j) mod 65536" by simp
  then have "i = j" by (rule mod_add_cancel_less [OF _ i j])
  with eq show ?thesis by simp
qed

lemma of_be_inject_128:
  assumes "length bs = 16" and "length cs = 16"
  shows "(of_be bs :: u128) = of_be cs \<longleftrightarrow> bs = cs"
proof -
  have "to_be 16 (of_be bs :: u128) = bs" and "to_be 16 (of_be cs :: u128) = cs"
    using to_be_of_be [of bs, where 'a = 128] to_be_of_be [of cs, where 'a = 128] assms by simp_all
  then show ?thesis by metis
qed

lemma length_salt_derive:
  "(\<And>k m. length (H k m) = 32) \<Longrightarrow> length (mk_salt (derive H master)) = 16"
  by (simp add: derive_def hmac_sha256_def)

text \<open>
  C5: Counter blocks are never shared: two packets of one session that differ in type, SSRC,
  sequence or timestamp start their AES-CTR key streams at 128-bit counter values whose first
  65536 successors (16 bytes each, so one mebibyte; a payload length is 16 bits wide) have no
  counter in common, even where the increment carries out of the low 16 bits.
\<close>

theorem ctr_blocks_disjoint:
  assumes "\<And>k m. length (H k m) = 32"
    and "(t, s, q, ts) \<noteq> (t', s', q', ts')"
    and "i < 65536" and "j < 65536"
  shows "(of_be (iv (derive H master) t s q ts) :: u128) + of_nat i
       \<noteq> of_be (iv (derive H master) t' s' q' ts') + of_nat j"
proof
  let ?keys = "derive H master"
  assume eq: "(of_be (iv ?keys t s q ts) :: u128) + of_nat i = of_be (iv ?keys t' s' q' ts') + of_nat j"
  have salt: "length (mk_salt ?keys) = 16"
    using assms(1) by (rule length_salt_derive)
  then have low: "take_bit 16 (of_be (iv ?keys t s q ts) :: u128)
      = take_bit 16 (of_be (iv ?keys t' s' q' ts'))"
    by (simp only: iv_low_bits)
  have "(of_be (iv ?keys t s q ts) :: u128) = of_be (iv ?keys t' s' q' ts')"
    by (rule counter_offsets_apart [OF low assms(3,4) eq])
  with salt have "iv ?keys t s q ts = iv ?keys t' s' q' ts'"
    by (simp add: of_be_inject_128 length_iv)
  with salt assms(2) show False by (simp add: iv_inject)
qed

theorem ctr_blocks_disjoint_witness:
  "(of_be (iv (derive (\<lambda>k m. replicate 32 (of_nat (length m))) [1, 2]) 1 7 9 960) :: u128) + of_nat 65535
     \<noteq> of_be (iv (derive (\<lambda>k m. replicate 32 (of_nat (length m))) [1, 2]) 1 7 10 960) + of_nat 0"
  by (rule ctr_blocks_disjoint) simp_all

end
