(* ===== verification/Packet.thy ===== *)
theory Packet
  imports Media_Keys
begin

text \<open>
  The AURX wire protocol of \<^verbatim>\<open>aurix-common/src/protocol.rs\<close>: packet types, flags, the 30-byte
  header, the plain, authenticated and sealed encodings, the strict decoder, tag verification and
  decryption, and the typed packets built on them (audio level, session bind, relay envelopes).

  The CRC-32 of crate \<^verbatim>\<open>crc32fast\<close> is the parameter \<open>crc\<close>; the MAC and the key stream are the
  parameters of \<^verbatim>\<open>Media_Keys\<close>. Lengths of byte strings are naturals; the 16-bit length field
  is written by \<open>of_nat\<close>, which truncates exactly as \<^verbatim>\<open>as u16\<close> does.
\<close>

unbundle bit_operations_syntax

type_synonym checksum = "bytes \<Rightarrow> u32"

section \<open>Constants\<close>

definition PROTOCOL_VERSION :: u8 where "PROTOCOL_VERSION = 2"
definition MAGIC_BYTES :: bytes where "MAGIC_BYTES = [0x41, 0x55, 0x52, 0x58]"
definition MAX_PACKET_SIZE :: nat where "MAX_PACKET_SIZE = 1400"
definition HEADER_SIZE :: nat where "HEADER_SIZE = 30"
definition AUTH_TAG_SIZE :: nat where "AUTH_TAG_SIZE = 16"
definition MAX_RELAY_PACKET_SIZE :: nat where
  "MAX_RELAY_PACKET_SIZE = MAX_PACKET_SIZE + HEADER_SIZE + AUTH_TAG_SIZE"
definition SESSION_BIND_PAYLOAD_SIZE :: nat where "SESSION_BIND_PAYLOAD_SIZE = 32"
definition AUDIO_LEVEL_SILENCE :: u8 where "AUDIO_LEVEL_SILENCE = 127"
definition MAX_RELAY_HOPS :: u8 where "MAX_RELAY_HOPS = 5"
definition RELAY_HOP_MARK :: u8 where "RELAY_HOP_MARK = 0x80"
definition RELAY_HOP_MASK :: u8 where "RELAY_HOP_MASK = 0x0F"

lemmas size_consts = MAX_PACKET_SIZE_def HEADER_SIZE_def AUTH_TAG_SIZE_def
  MAX_RELAY_PACKET_SIZE_def SESSION_BIND_PAYLOAD_SIZE_def

section \<open>Packet types and flags\<close>

datatype packet_type =
    Audio | AudioFec | Control | Heartbeat | HeartbeatAck | SessionInit | SessionInitAck
  | SessionClose | SessionBind | SessionBindAck | ChannelJoin | ChannelJoinAck | ChannelLeave
  | PositionUpdate | MuteState | SpeakingState | QualityReport | BitrateCommand | Relay | ErrorPacket

text \<open>The discriminants (\<^verbatim>\<open>packet_type as u8\<close>).\<close>

fun type_u8 :: "packet_type \<Rightarrow> u8" where
  "type_u8 Audio = 0x01"
| "type_u8 AudioFec = 0x02"
| "type_u8 Control = 0x10"
| "type_u8 Heartbeat = 0x20"
| "type_u8 HeartbeatAck = 0x21"
| "type_u8 SessionInit = 0x30"
| "type_u8 SessionInitAck = 0x31"
| "type_u8 SessionClose = 0x32"
| "type_u8 SessionBind = 0x33"
| "type_u8 SessionBindAck = 0x34"
| "type_u8 ChannelJoin = 0x40"
| "type_u8 ChannelJoinAck = 0x41"
| "type_u8 ChannelLeave = 0x42"
| "type_u8 PositionUpdate = 0x50"
| "type_u8 MuteState = 0x60"
| "type_u8 SpeakingState = 0x61"
| "type_u8 QualityReport = 0x70"
| "type_u8 BitrateCommand = 0x71"
| "type_u8 Relay = 0x80"
| "type_u8 ErrorPacket = 0xFF"

definition from_u8 :: "u8 \<Rightarrow> packet_type option" where
  "from_u8 v =
     (if v = 0x01 then Some Audio
      else if v = 0x02 then Some AudioFec
      else if v = 0x10 then Some Control
      else if v = 0x20 then Some Heartbeat
      else if v = 0x21 then Some HeartbeatAck
      else if v = 0x30 then Some SessionInit
      else if v = 0x31 then Some SessionInitAck
      else if v = 0x32 then Some SessionClose
      else if v = 0x33 then Some SessionBind
      else if v = 0x34 then Some SessionBindAck
      else if v = 0x40 then Some ChannelJoin
      else if v = 0x41 then Some ChannelJoinAck
      else if v = 0x42 then Some ChannelLeave
      else if v = 0x50 then Some PositionUpdate
      else if v = 0x60 then Some MuteState
      else if v = 0x61 then Some SpeakingState
      else if v = 0x70 then Some QualityReport
      else if v = 0x71 then Some BitrateCommand
      else if v = 0x80 then Some Relay
      else if v = 0xFF then Some ErrorPacket
      else None)"

datatype packet_flag =
    Encrypted | Compressed | Dtx | Fec | Pcma | Priority | RelayFlag | VolumeAttenuated
  | E2ee | Rtp | Authenticated | Energy | Directional | Pcmu | Mixed | RelayHop

fun flag_u16 :: "packet_flag \<Rightarrow> u16" where
  "flag_u16 Encrypted = 0x0001"
| "flag_u16 Compressed = 0x0002"
| "flag_u16 Dtx = 0x0004"
| "flag_u16 Fec = 0x0008"
| "flag_u16 Pcma = 0x0010"
| "flag_u16 Priority = 0x0020"
| "flag_u16 RelayFlag = 0x0040"
| "flag_u16 VolumeAttenuated = 0x0080"
| "flag_u16 E2ee = 0x0100"
| "flag_u16 Rtp = 0x0200"
| "flag_u16 Authenticated = 0x0400"
| "flag_u16 Energy = 0x0800"
| "flag_u16 Directional = 0x1000"
| "flag_u16 Pcmu = 0x2000"
| "flag_u16 Mixed = 0x4000"
| "flag_u16 RelayHop = 0x8000"

datatype audio_codec = Opus | CodecPcmu | CodecPcma

section \<open>Headers\<close>

record packet_header =
  h_version :: u8
  h_type :: packet_type
  h_flags :: u16
  h_sequence :: u32
  h_timestamp :: u32
  h_ssrc :: u32
  h_channel :: u32
  h_length :: u16
  h_checksum :: u32

datatype transport_error =
    TooShortForHeader | InvalidMagic | UnsupportedVersion u8 | UnknownType u8
  | ExceedsMaximum | PayloadTruncated | TrailingBytes | ChecksumMismatch
  | NotSessionBind | BadSessionBindLength | NotRelay | RelayTooShort | BadHopByte

definition new_header :: "packet_type \<Rightarrow> u32 \<Rightarrow> u32 \<Rightarrow> u32 \<Rightarrow> packet_header" where
  "new_header ptype seq ts s =
     \<lparr> h_version = PROTOCOL_VERSION, h_type = ptype, h_flags = 0, h_sequence = seq,
       h_timestamp = ts, h_ssrc = s, h_channel = 0, h_length = 0, h_checksum = 0 \<rparr>"

definition encode_header :: "packet_header \<Rightarrow> bytes" where
  "encode_header h =
     MAGIC_BYTES @ [h_version h, type_u8 (h_type h)] @ to_be 2 (h_flags h)
       @ to_be 4 (h_sequence h) @ to_be 4 (h_timestamp h) @ to_be 4 (h_ssrc h)
       @ to_be 4 (h_channel h) @ to_be 2 (h_length h) @ to_be 4 (h_checksum h)"

text \<open>Big-endian read of \<open>n\<close> bytes at offset \<open>i\<close>, as the cursor reads of \<^verbatim>\<open>bytes::Buf\<close> do.\<close>

definition get_be :: "nat \<Rightarrow> nat \<Rightarrow> bytes \<Rightarrow> 'a::len word" where
  "get_be n i buf = of_be (take n (drop i buf))"

text \<open>The result carries the header and what is left of the buffer after it.\<close>

definition decode_header :: "bytes \<Rightarrow> transport_error + packet_header \<times> bytes" where
  "decode_header buf =
     (if length buf < HEADER_SIZE then Inl TooShortForHeader
      else if take 4 buf \<noteq> MAGIC_BYTES then Inl InvalidMagic
      else if buf ! 4 \<noteq> PROTOCOL_VERSION then Inl (UnsupportedVersion (buf ! 4))
      else case from_u8 (buf ! 5) of
        None \<Rightarrow> Inl (UnknownType (buf ! 5))
      | Some t \<Rightarrow>
          Inr (\<lparr> h_version = buf ! 4, h_type = t, h_flags = get_be 2 6 buf,
                 h_sequence = get_be 4 8 buf, h_timestamp = get_be 4 12 buf,
                 h_ssrc = get_be 4 16 buf, h_channel = get_be 4 20 buf,
                 h_length = get_be 2 24 buf, h_checksum = get_be 4 26 buf \<rparr>,
               drop HEADER_SIZE buf))"

definition set_flag :: "packet_flag \<Rightarrow> packet_header \<Rightarrow> packet_header" where
  "set_flag f h = h\<lparr>h_flags := h_flags h OR flag_u16 f\<rparr>"

definition clear_flag :: "packet_flag \<Rightarrow> packet_header \<Rightarrow> packet_header" where
  "clear_flag f h = h\<lparr>h_flags := h_flags h AND NOT (flag_u16 f)\<rparr>"

definition has_flag :: "packet_flag \<Rightarrow> packet_header \<Rightarrow> bool" where
  "has_flag f h \<longleftrightarrow> h_flags h AND flag_u16 f \<noteq> 0"

definition audio_codec_of :: "packet_header \<Rightarrow> audio_codec" where
  "audio_codec_of h =
     (if has_flag Pcmu h then CodecPcmu else if has_flag Pcma h then CodecPcma else Opus)"

definition set_audio_codec :: "audio_codec \<Rightarrow> packet_header \<Rightarrow> packet_header" where
  "set_audio_codec c h =
     (let h' = clear_flag Pcma (clear_flag Pcmu h) in
      case c of Opus \<Rightarrow> h' | CodecPcmu \<Rightarrow> set_flag Pcmu h' | CodecPcma \<Rightarrow> set_flag Pcma h')"

section \<open>Packets\<close>

record aurix_packet =
  p_header :: packet_header
  p_payload :: bytes
  p_tag :: "bytes option"

definition new_packet :: "packet_header \<Rightarrow> bytes \<Rightarrow> aurix_packet" where
  "new_packet h payload = \<lparr> p_header = h, p_payload = payload, p_tag = None \<rparr>"

definition finalized_header :: "checksum \<Rightarrow> aurix_packet \<Rightarrow> packet_header" where
  "finalized_header crc p =
     (p_header p)\<lparr>h_length := of_nat (length (p_payload p)), h_checksum := crc (p_payload p)\<rparr>"

definition encode :: "checksum \<Rightarrow> aurix_packet \<Rightarrow> bytes" where
  "encode crc p =
     (let h = clear_flag Authenticated (finalized_header crc p)
      in encode_header h @ p_payload p)"

definition encode_authenticated :: "mac \<Rightarrow> checksum \<Rightarrow> media_keys \<Rightarrow> aurix_packet \<Rightarrow> bytes" where
  "encode_authenticated H crc keys p =
     (let h = clear_flag Encrypted (set_flag Authenticated (finalized_header crc p));
          buf = encode_header h @ p_payload p;
          tag = hmac_sha256 H (mk_auth keys) [buf]
      in buf @ take AUTH_TAG_SIZE tag)"

text \<open>
  The source reserves the header bytes, encrypts the payload behind them and then overwrites the
  reserved bytes with the finished header.
\<close>

definition seal_parts ::
  "mac \<Rightarrow> keystream \<Rightarrow> checksum \<Rightarrow> packet_header \<Rightarrow> bytes \<Rightarrow> media_keys \<Rightarrow> bytes" where
  "seal_parts H ks crc h payload keys =
     (let h1 = h\<lparr>h_flags := h_flags h OR (flag_u16 Authenticated OR flag_u16 Encrypted),
                 h_length := of_nat (length payload)\<rparr>;
          v = iv keys (type_u8 (h_type h1)) (h_ssrc h1) (h_sequence h1) (h_timestamp h1);
          cipher = apply_ctr ks keys v payload;
          h2 = h1\<lparr>h_checksum := crc cipher\<rparr>;
          buf = encode_header h2 @ cipher;
          tag = hmac_sha256 H (mk_auth keys) [buf]
      in buf @ take AUTH_TAG_SIZE tag)"

definition seal :: "mac \<Rightarrow> keystream \<Rightarrow> checksum \<Rightarrow> aurix_packet \<Rightarrow> media_keys \<Rightarrow> bytes" where
  "seal H ks crc p keys = seal_parts H ks crc (p_header p) (p_payload p) keys"

definition decode_bounded :: "checksum \<Rightarrow> bytes \<Rightarrow> nat \<Rightarrow> transport_error + aurix_packet" where
  "decode_bounded crc data max_size =
     (if length data > max_size then Inl ExceedsMaximum
      else case decode_header data of
        Inl e \<Rightarrow> Inl e
      | Inr (h, rest) \<Rightarrow>
          (let authenticated = has_flag Authenticated h;
               expected = unat (h_length h) + (if authenticated then AUTH_TAG_SIZE else 0)
           in if length rest < expected then Inl PayloadTruncated
              else if length rest > expected then Inl TrailingBytes
              else
                (let payload = take (unat (h_length h)) rest;
                     rest' = drop (unat (h_length h)) rest
                 in if crc payload \<noteq> h_checksum h then Inl ChecksumMismatch
                    else Inr \<lparr> p_header = h, p_payload = payload,
                               p_tag = (if authenticated then Some (take AUTH_TAG_SIZE rest')
                                        else None) \<rparr>)))"

definition decode :: "checksum \<Rightarrow> bytes \<Rightarrow> transport_error + aurix_packet" where
  "decode crc data = decode_bounded crc data MAX_PACKET_SIZE"

definition verify_auth :: "mac \<Rightarrow> media_keys \<Rightarrow> aurix_packet \<Rightarrow> bool" where
  "verify_auth H keys p =
     (case p_tag p of
        None \<Rightarrow> False
      | Some tag \<Rightarrow>
          (let buf = encode_header (p_header p) @ p_payload p;
               expected = hmac_sha256 H (mk_auth keys) [buf]
           in constant_time_eq (take AUTH_TAG_SIZE expected) tag))"

definition open_packet ::
  "mac \<Rightarrow> keystream \<Rightarrow> checksum \<Rightarrow> media_keys \<Rightarrow> aurix_packet \<Rightarrow> bool \<times> aurix_packet" where
  "open_packet H ks crc keys p =
     (if \<not> verify_auth H keys p then (False, p)
      else if has_flag Encrypted (p_header p) then
        (let h = p_header p;
             v = iv keys (type_u8 (h_type h)) (h_ssrc h) (h_sequence h) (h_timestamp h);
             plain = apply_ctr ks keys v (p_payload p)
         in (True, p\<lparr>p_payload := plain,
                     p_header := (clear_flag Encrypted h)\<lparr>h_checksum := crc plain\<rparr>\<rparr>))
      else (True, p))"

definition is_authenticated :: "aurix_packet \<Rightarrow> bool" where
  "is_authenticated p \<longleftrightarrow> p_tag p \<noteq> None"

section \<open>Audio packets\<close>

definition audio :: "u32 \<Rightarrow> u32 \<Rightarrow> u32 \<Rightarrow> u32 \<Rightarrow> bytes \<Rightarrow> aurix_packet" where
  "audio seq ts s ch_hash data =
     new_packet ((new_header Audio seq ts s)\<lparr>h_channel := ch_hash\<rparr>) data"

definition audio_with_level :: "u32 \<Rightarrow> u32 \<Rightarrow> u32 \<Rightarrow> u32 \<Rightarrow> u8 \<Rightarrow> bytes \<Rightarrow> aurix_packet" where
  "audio_with_level seq ts s ch_hash level data =
     new_packet (set_flag Energy ((new_header Audio seq ts s)\<lparr>h_channel := ch_hash\<rparr>))
       (min level AUDIO_LEVEL_SILENCE # data)"

definition take_audio_level :: "aurix_packet \<Rightarrow> u8 option \<times> aurix_packet" where
  "take_audio_level p =
     (if \<not> has_flag Energy (p_header p) then (None, p)
      else
        (let p1 = p\<lparr>p_header := clear_flag Energy (p_header p)\<rparr>
         in case p_payload p1 of
              [] \<Rightarrow> (Some AUDIO_LEVEL_SILENCE, p1)
            | b # rest \<Rightarrow>
                (Some (min b AUDIO_LEVEL_SILENCE),
                 p1\<lparr>p_payload := rest,
                    p_header := (p_header p1)\<lparr>h_length := of_nat (length rest)\<rparr>\<rparr>)))"

definition with_audio_level :: "aurix_packet \<Rightarrow> u8 \<Rightarrow> aurix_packet" where
  "with_audio_level p level =
     new_packet (set_flag Energy (p_header p)) (min level AUDIO_LEVEL_SILENCE # p_payload p)"

section \<open>Downlink metadata\<close>

text \<open>
  Volumes are \<^verbatim>\<open>f32\<close>. A finite \<^verbatim>\<open>f32\<close> is a rational, multiplying or dividing it by 128 is
  exact, and \<open>volume - 1.0\<close> is exact for volumes in \<open>[0.5, 2]\<close>, outside of which the comparison
  with \<open>0.01\<close> cannot be changed by rounding: on finite values the rational functions below give
  the results of the source. \<open>10737418 / 2 ^ 30\<close> is the \<^verbatim>\<open>f32\<close> nearest to \<open>0.01\<close>.
  The conversion of a direction to its two wire bytes scales by \<open>127 / pi\<close> in \<^verbatim>\<open>f32\<close>; it is the
  parameter \<open>enc_dir\<close>, its inverse the parameter \<open>dec_dir\<close>.
\<close>

definition encode_volume_byte :: "rat \<Rightarrow> u8" where
  "encode_volume_byte volume =
     word_of_int \<lfloor>max 0 (min (255 / 128) volume) * 128 + 1 / 2\<rfloor>"

definition decode_volume_byte :: "u8 \<Rightarrow> rat" where
  "decode_volume_byte b = of_nat (unat b) / 128"

definition attenuated :: "rat \<Rightarrow> bool" where
  "attenuated volume \<longleftrightarrow> \<bar>volume - 1\<bar> > 10737418 / 1073741824"

definition downlink_parts_with ::
  "('d \<Rightarrow> u8 \<times> u8) \<Rightarrow> aurix_packet \<Rightarrow> bytes \<Rightarrow> rat \<Rightarrow> 'd option \<Rightarrow> packet_header \<times> bytes" where
  "downlink_parts_with enc_dir p frame volume direction =
     (if \<not> attenuated volume \<and> Option.is_none direction
      then ((p_header p)\<lparr>h_length := of_nat (length frame)\<rparr>, frame)
      else
        (let h1 = (if attenuated volume then set_flag VolumeAttenuated (p_header p)
                   else p_header p);
             b1 = (if attenuated volume then [encode_volume_byte volume] else []);
             h2 = (if Option.is_none direction then h1 else set_flag Directional h1);
             b2 = (case direction of None \<Rightarrow> b1 | Some d \<Rightarrow> b1 @ [fst (enc_dir d), snd (enc_dir d)]);
             body = b2 @ frame
         in (h2\<lparr>h_length := of_nat (length body)\<rparr>, body)))"

definition downlink_parts ::
  "('d \<Rightarrow> u8 \<times> u8) \<Rightarrow> aurix_packet \<Rightarrow> rat \<Rightarrow> 'd option \<Rightarrow> packet_header \<times> bytes" where
  "downlink_parts enc_dir p volume direction =
     downlink_parts_with enc_dir p (p_payload p) volume direction"

definition take_downlink_meta ::
  "(u8 \<times> u8 \<Rightarrow> 'd) \<Rightarrow> aurix_packet \<Rightarrow> (rat \<times> 'd option) \<times> aurix_packet" where
  "take_downlink_meta dec_dir p =
     (let (volume, p1) =
            (if has_flag VolumeAttenuated (p_header p) then
               (let q = p\<lparr>p_header := clear_flag VolumeAttenuated (p_header p)\<rparr>
                in case p_payload q of
                     [] \<Rightarrow> (1, q)
                   | b # rest \<Rightarrow> (decode_volume_byte b, q\<lparr>p_payload := rest\<rparr>))
             else (1, p));
          (direction, p2) =
            (if has_flag Directional (p_header p1) then
               (let q = p1\<lparr>p_header := clear_flag Directional (p_header p1)\<rparr>
                in case p_payload q of
                     a # e # rest \<Rightarrow> (Some (dec_dir (a, e)), q\<lparr>p_payload := rest\<rparr>)
                   | _ \<Rightarrow> (None, q))
             else (None, p1))
      in ((volume, direction),
          p2\<lparr>p_header := (p_header p2)\<lparr>h_length := of_nat (length (p_payload p2))\<rparr>\<rparr>))"

section \<open>Session and control packets\<close>

text \<open>A UUID is its 128-bit value; \<^verbatim>\<open>as_bytes\<close> and \<^verbatim>\<open>from_slice\<close> are its big-endian bytes.\<close>

type_synonym uuid = u128

definition heartbeat :: "u32 \<Rightarrow> u32 \<Rightarrow> aurix_packet" where
  "heartbeat s ts = new_packet (new_header Heartbeat 0 ts s) []"

definition bitrate_command :: "u32 \<Rightarrow> u32 \<Rightarrow> aurix_packet" where
  "bitrate_command s target_bitrate =
     new_packet (new_header BitrateCommand 0 0 s) (to_be 4 target_bitrate)"

definition session_bind :: "uuid \<Rightarrow> u32 \<Rightarrow> u64 \<Rightarrow> u64 \<Rightarrow> aurix_packet" where
  "session_bind session_id s unix_ms nonce =
     new_packet (new_header SessionBind (ucast nonce) (ucast unix_ms) s)
       (to_be 16 session_id @ to_be 8 unix_ms @ to_be 8 nonce)"

definition session_bind_ack :: "u32 \<Rightarrow> u32 \<Rightarrow> u64 \<Rightarrow> aurix_packet" where
  "session_bind_ack s seq unix_ms =
     new_packet (new_header SessionBindAck seq (ucast unix_ms) s) (to_be 8 unix_ms)"

definition parse_session_bind :: "aurix_packet \<Rightarrow> transport_error + uuid \<times> u64 \<times> u64" where
  "parse_session_bind p =
     (if h_type (p_header p) \<noteq> SessionBind then Inl NotSessionBind
      else if length (p_payload p) \<noteq> SESSION_BIND_PAYLOAD_SIZE then Inl BadSessionBindLength
      else Inr (get_be 16 0 (p_payload p), get_be 8 16 (p_payload p), get_be 8 24 (p_payload p)))"

section \<open>Relay envelopes\<close>

definition relay_envelope_inner ::
  "checksum \<Rightarrow> aurix_packet \<Rightarrow> u32 \<Rightarrow> u64 \<Rightarrow> uuid \<Rightarrow> u8 option \<Rightarrow> aurix_packet" where
  "relay_envelope_inner crc inner relay_ssrc counter sender hop =
     (let h1 = (set_flag RelayFlag
                  (new_header Relay (ucast counter) (ucast (drop_bit 32 counter)) relay_ssrc))
                  \<lparr>h_channel := h_channel (p_header inner)\<rparr>;
          encoded = encode crc inner
      in case hop of
           None \<Rightarrow> new_packet h1 (to_be 16 sender @ encoded)
         | Some n \<Rightarrow> new_packet (set_flag RelayHop h1)
             (to_be 16 sender @ [RELAY_HOP_MARK OR (n AND RELAY_HOP_MASK)] @ encoded))"

definition relay_envelope :: "checksum \<Rightarrow> aurix_packet \<Rightarrow> u32 \<Rightarrow> u64 \<Rightarrow> uuid \<Rightarrow> aurix_packet" where
  "relay_envelope crc inner relay_ssrc counter sender =
     relay_envelope_inner crc inner relay_ssrc counter sender None"

definition relay_envelope_hop ::
  "checksum \<Rightarrow> aurix_packet \<Rightarrow> u32 \<Rightarrow> u64 \<Rightarrow> uuid \<Rightarrow> u8 \<Rightarrow> aurix_packet" where
  "relay_envelope_hop crc inner relay_ssrc counter sender hop =
     relay_envelope_inner crc inner relay_ssrc counter sender (Some hop)"

definition relay_inner_hop ::
  "checksum \<Rightarrow> aurix_packet \<Rightarrow> transport_error + uuid \<times> u8 option \<times> aurix_packet" where
  "relay_inner_hop crc p =
     (if h_type (p_header p) \<noteq> Relay then Inl NotRelay
      else
        (let with_hop = has_flag RelayHop (p_header p);
             prefix = (if with_hop then 17 else 16)
         in if length (p_payload p) < prefix + HEADER_SIZE then Inl RelayTooShort
            else
              (let sender = get_be 16 0 (p_payload p);
                   b = p_payload p ! 16
               in if with_hop \<and> b AND NOT RELAY_HOP_MASK \<noteq> RELAY_HOP_MARK then Inl BadHopByte
                  else
                    (let hop = (if with_hop then Some (b AND RELAY_HOP_MASK) else None)
                     in case decode crc (drop prefix (p_payload p)) of
                          Inl e \<Rightarrow> Inl e
                        | Inr inner \<Rightarrow> Inr (sender, hop, inner)))))"

definition relay_inner :: "checksum \<Rightarrow> aurix_packet \<Rightarrow> transport_error + uuid \<times> aurix_packet" where
  "relay_inner crc p =
     (case relay_inner_hop crc p of
        Inl e \<Rightarrow> Inl e | Inr (sender, _, inner) \<Rightarrow> Inr (sender, inner))"

section \<open>Flags\<close>

text \<open>Every flag is one bit of the 16-bit field; \<open>flag_bit\<close> is its position.\<close>

definition flag_bit :: "packet_flag \<Rightarrow> nat" where
  "flag_bit f = (case f of
     Encrypted \<Rightarrow> 0 | Compressed \<Rightarrow> 1 | Dtx \<Rightarrow> 2 | Fec \<Rightarrow> 3 | Pcma \<Rightarrow> 4 | Priority \<Rightarrow> 5
   | RelayFlag \<Rightarrow> 6 | VolumeAttenuated \<Rightarrow> 7 | E2ee \<Rightarrow> 8 | Rtp \<Rightarrow> 9 | Authenticated \<Rightarrow> 10
   | Energy \<Rightarrow> 11 | Directional \<Rightarrow> 12 | Pcmu \<Rightarrow> 13 | Mixed \<Rightarrow> 14 | RelayHop \<Rightarrow> 15)"

lemma flag_u16_exp: "flag_u16 f = 2 ^ flag_bit f"
  by (cases f) (simp_all add: flag_bit_def)

declare flag_u16.simps [simp del]

lemma flag_bit_less: "flag_bit f < 16"
  by (cases f) (simp_all add: flag_bit_def)

lemma flag_bit_inject: "flag_bit f = flag_bit g \<longleftrightarrow> f = g"
  by (cases f; cases g) (simp_all add: flag_bit_def)

lemma has_flag_bit: "has_flag f h \<longleftrightarrow> bit (h_flags h) (flag_bit f)"
  by (simp add: has_flag_def flag_u16_exp and_exp_eq_0_iff_not_bit)

lemma has_flag_set [simp]: "has_flag f (set_flag g h) \<longleftrightarrow> f = g \<or> has_flag f h"
  using flag_bit_less [of f]
  by (auto simp: has_flag_bit set_flag_def flag_u16_exp bit_or_iff bit_exp_iff flag_bit_inject)

lemma has_flag_clear [simp]: "has_flag f (clear_flag g h) \<longleftrightarrow> f \<noteq> g \<and> has_flag f h"
  using flag_bit_less [of f]
  by (auto simp: has_flag_bit clear_flag_def flag_u16_exp bit_and_iff bit_not_iff bit_exp_iff
      flag_bit_inject)

lemma flags_other_fields [simp]:
  "h_version (set_flag f h) = h_version h" "h_type (set_flag f h) = h_type h"
  "h_sequence (set_flag f h) = h_sequence h" "h_timestamp (set_flag f h) = h_timestamp h"
  "h_ssrc (set_flag f h) = h_ssrc h" "h_channel (set_flag f h) = h_channel h"
  "h_length (set_flag f h) = h_length h" "h_checksum (set_flag f h) = h_checksum h"
  "h_version (clear_flag f h) = h_version h" "h_type (clear_flag f h) = h_type h"
  "h_sequence (clear_flag f h) = h_sequence h" "h_timestamp (clear_flag f h) = h_timestamp h"
  "h_ssrc (clear_flag f h) = h_ssrc h" "h_channel (clear_flag f h) = h_channel h"
  "h_length (clear_flag f h) = h_length h" "h_checksum (clear_flag f h) = h_checksum h"
  by (simp_all add: set_flag_def clear_flag_def)

lemma has_flag_update [simp]:
  "has_flag f (h\<lparr>h_length := n\<rparr>) = has_flag f h"
  "has_flag f (h\<lparr>h_checksum := c\<rparr>) = has_flag f h"
  "has_flag f (h\<lparr>h_channel := c\<rparr>) = has_flag f h"
  by (simp_all add: has_flag_def)

lemma flags_word_eqI:
  assumes "\<And>f. has_flag f h = has_flag f h'"
  shows "h_flags h = h_flags h'"
proof (rule bit_word_eqI)
  fix n assume "n < LENGTH(16)"
  then have "n \<in> flag_bit ` UNIV"
  proof -
    have "n \<in> set [0..<16]" using \<open>n < LENGTH(16)\<close> by simp
    moreover have "set [0..<16] \<subseteq> flag_bit ` {Encrypted, Compressed, Dtx, Fec, Pcma, Priority,
        RelayFlag, VolumeAttenuated, E2ee, Rtp, Authenticated, Energy, Directional, Pcmu, Mixed,
        RelayHop}"
      by (simp add: upt_rec flag_bit_def)
    ultimately show ?thesis by blast
  qed
  then show "bit (h_flags h) n = bit (h_flags h') n"
    using assms by (auto simp: has_flag_bit)
qed

section \<open>The header codec\<close>

lemma from_u8_type_u8 [simp]: "from_u8 (type_u8 t) = Some t"
  by (cases t) (simp_all add: from_u8_def)

lemma type_u8_from_u8: "from_u8 v = Some t \<Longrightarrow> type_u8 t = v"
  by (auto simp: from_u8_def split: if_splits)

lemma length_encode_header [simp, wire]: "length (encode_header h) = 30"
  by (simp add: encode_header_def MAGIC_BYTES_def)

lemma decode_header_encode:
  "h_version h = PROTOCOL_VERSION \<Longrightarrow> decode_header (encode_header h @ rest) = Inr (h, rest)"
  by (simp add: decode_header_def encode_header_def MAGIC_BYTES_def HEADER_SIZE_def get_be_def
      nth_append)

lemma to_be_get_be:
  assumes "8 * n = LENGTH('a)" and "i + n \<le> length buf"
  shows "to_be n (get_be n i buf :: 'a::len word) = take n (drop i buf)"
proof -
  have "length (take n (drop i buf)) = n" using assms(2) by simp
  then show ?thesis
    using to_be_of_be [of "take n (drop i buf)", where 'a = 'a] assms(1) by (simp add: get_be_def)
qed

lemma decode_header_Inr:
  assumes "decode_header buf = Inr (h, rest)"
  shows "buf = encode_header h @ rest" and "h_version h = PROTOCOL_VERSION"
proof -
  from assms have len: "30 \<le> length buf" and magic: "take 4 buf = MAGIC_BYTES"
    and v: "buf ! 4 = PROTOCOL_VERSION" and rest: "rest = drop 30 buf"
    by (auto simp: decode_header_def HEADER_SIZE_def split: if_splits option.splits)
  from assms obtain t where t: "from_u8 (buf ! 5) = Some t"
    and h: "h = \<lparr> h_version = buf ! 4, h_type = t, h_flags = get_be 2 6 buf,
                 h_sequence = get_be 4 8 buf, h_timestamp = get_be 4 12 buf,
                 h_ssrc = get_be 4 16 buf, h_channel = get_be 4 20 buf,
                 h_length = get_be 2 24 buf, h_checksum = get_be 4 26 buf \<rparr>"
    by (auto simp: decode_header_def split: if_splits option.splits)
  show "h_version h = PROTOCOL_VERSION" using h v by simp
  have "encode_header h @ rest = take 4 buf @ [buf ! 4] @ [buf ! 5] @ take 2 (drop 6 buf)
      @ take 4 (drop 8 buf) @ take 4 (drop 12 buf) @ take 4 (drop 16 buf) @ take 4 (drop 20 buf)
      @ take 2 (drop 24 buf) @ take 4 (drop 26 buf) @ drop 30 buf"
    using len by (simp add: encode_header_def h rest magic type_u8_from_u8 [OF t] to_be_get_be)
  also have "\<dots> = buf"
    using len take_drop_append [of 4 0 buf] nth_Cons_drop [of 4 buf] nth_Cons_drop [of 5 buf]
      take_drop_append [of 2 6 buf] take_drop_append [of 4 8 buf] take_drop_append [of 4 12 buf]
      take_drop_append [of 4 16 buf] take_drop_append [of 4 20 buf] take_drop_append [of 2 24 buf]
      take_drop_append [of 4 26 buf]
    by simp
  finally show "buf = encode_header h @ rest" by simp
qed

section \<open>The strict decoder\<close>

text \<open>
  The specification of the decoder: \<open>wire p\<close> is the only byte string that carries \<open>p\<close>, and
  \<open>wire_ok\<close> says which packets have one within a size bound.
\<close>

definition wire :: "aurix_packet \<Rightarrow> bytes" where
  "wire p = encode_header (p_header p) @ p_payload p
     @ (case p_tag p of None \<Rightarrow> [] | Some tag \<Rightarrow> tag)"

definition wire_ok :: "checksum \<Rightarrow> nat \<Rightarrow> aurix_packet \<Rightarrow> bool" where
  "wire_ok crc n p \<longleftrightarrow>
     h_version (p_header p) = PROTOCOL_VERSION
     \<and> unat (h_length (p_header p)) = length (p_payload p)
     \<and> h_checksum (p_header p) = crc (p_payload p)
     \<and> (case p_tag p of
          None \<Rightarrow> \<not> has_flag Authenticated (p_header p)
        | Some tag \<Rightarrow> has_flag Authenticated (p_header p) \<and> length tag = AUTH_TAG_SIZE)
     \<and> length (wire p) \<le> n"

lemma decode_bounded_wire:
  assumes "wire_ok crc n p"
  shows "decode_bounded crc (wire p) n = Inr p"
proof (cases "p_tag p")
  case None
  with assms show ?thesis
    by (cases p) (simp add: wire_ok_def wire_def decode_bounded_def decode_header_encode Let_def)
next
  case (Some tag)
  with assms show ?thesis
    by (cases p) (simp add: wire_ok_def wire_def decode_bounded_def decode_header_encode Let_def)
qed

lemma decode_bounded_Inr:
  assumes "decode_bounded crc data n = Inr p"
  shows "wire_ok crc n p" and "data = wire p"
proof -
  from assms obtain h rest where size: "length data \<le> n"
    and hdr: "decode_header data = Inr (h, rest)"
    by (auto simp: decode_bounded_def split: if_splits sum.splits prod.splits)
  let ?len = "unat (h_length h)"
  let ?auth = "has_flag Authenticated h"
  from assms size hdr have exact: "length rest = ?len + (if ?auth then AUTH_TAG_SIZE else 0)"
    and crc: "crc (take ?len rest) = h_checksum h"
    and p: "p = \<lparr> p_header = h, p_payload = take ?len rest,
      p_tag = (if ?auth then Some (take AUTH_TAG_SIZE (drop ?len rest)) else None) \<rparr>"
    by (auto simp: decode_bounded_def Let_def split: if_splits)
  have data: "data = encode_header h @ rest" and v: "h_version h = PROTOCOL_VERSION"
    using decode_header_Inr [OF hdr] by simp_all
  show "data = wire p"
    using exact by (auto simp: data p wire_def)
  then show "wire_ok crc n p"
    using exact crc size v by (auto simp: p wire_ok_def)
qed

text \<open>
  C1: The decoder is exact: \<open>decode_bounded\<close> returns packet \<open>p\<close> for a datagram if and only if the
  datagram is the unique wire image of \<open>p\<close> (header, payload, tag when flagged, nothing else), the
  length field and the CRC match, the version is 2 and the size bound holds. No second datagram
  decodes to the same packet and no byte of an accepted datagram is ignored.
\<close>

theorem decode_exact:
  "decode_bounded crc data n = Inr p \<longleftrightarrow> wire_ok crc n p \<and> data = wire p"
  using decode_bounded_wire decode_bounded_Inr by blast

section \<open>Authentication and sealing\<close>

lemma verify_auth_wire:
  assumes H: "\<And>k m. length (H k m) = 32" and ok: "wire_ok crc n p"
  shows "verify_auth H keys p \<longleftrightarrow> has_flag Authenticated (p_header p)
     \<and> drop (length (wire p) - 16) (wire p)
       = take 16 (H (mk_auth keys) (take (length (wire p) - 16) (wire p)))"
proof (cases "p_tag p")
  case None
  with ok show ?thesis by (simp add: verify_auth_def wire_ok_def)
next
  case (Some tag)
  then have "wire p = (encode_header (p_header p) @ p_payload p) @ tag" by (simp add: wire_def)
  moreover have "length tag = 16" and "has_flag Authenticated (p_header p)"
    using ok Some by (simp_all add: wire_ok_def AUTH_TAG_SIZE_def)
  ultimately show ?thesis
    using H Some
    by (auto simp: verify_auth_def constant_time_eq_def hmac_sha256_def AUTH_TAG_SIZE_def)
qed

text \<open>
  C2: What \<open>verify_auth\<close> accepts: for a datagram the decoder accepted, the tag check succeeds if
  and only if the \<open>Authenticated\<close> flag is set and the last 16 bytes are the truncated MAC, under
  the session key, of every byte before them. No part of the datagram escapes the MAC.
\<close>

theorem verify_auth_covers_datagram:
  assumes "\<And>k m. length (H k m) = 32"
    and "decode_bounded crc data n = Inr p"
  shows "verify_auth H keys p \<longleftrightarrow> has_flag Authenticated (p_header p)
     \<and> drop (length data - 16) data = take 16 (H (mk_auth keys) (take (length data - 16) data))"
  using verify_auth_wire [of H crc n p keys] assms(1) decode_bounded_Inr [OF assms(2)] by simp

definition sample_keys :: media_keys where
  "sample_keys = \<lparr> mk_auth = [1, 2, 3], mk_cipher = [4, 5, 6], mk_salt = replicate 16 9 \<rparr>"

definition sample_tagged :: aurix_packet where
  "sample_tagged =
     \<lparr> p_header = (set_flag Authenticated (new_header Audio 1 960 7))\<lparr>h_length := 2, h_checksum := 5\<rparr>,
       p_payload = [10, 20], p_tag = Some (replicate 16 32) \<rparr>"

lemma sample_tagged_ok: "wire_ok (\<lambda>_. 5) 1400 sample_tagged"
  by (simp add: wire_ok_def sample_tagged_def new_header_def wire_def AUTH_TAG_SIZE_def)

theorem verify_auth_covers_datagram_witness:
  "verify_auth (\<lambda>k m. replicate 32 (of_nat (length m))) sample_keys sample_tagged
   \<and> drop (length (wire sample_tagged) - 16) (wire sample_tagged) = replicate 16 32"
proof -
  have "decode_bounded (\<lambda>_. 5) (wire sample_tagged) 1400 = Inr sample_tagged"
    by (rule decode_bounded_wire [OF sample_tagged_ok])
  from verify_auth_covers_datagram [OF _ this,
      of "\<lambda>k m. replicate 32 (of_nat (length m))" sample_keys]
  show ?thesis by (simp add: sample_tagged_def wire_def)
qed

lemma clear_or_flags:
  "(x OR (flag_u16 g OR flag_u16 f)) AND NOT (flag_u16 f) = (x OR flag_u16 g) AND NOT (flag_u16 f)"
  by (rule bit_word_eqI) (auto simp: bit_simps)

text \<open>The packet a sealed datagram decodes to, before it is opened.\<close>

definition sealed :: "mac \<Rightarrow> keystream \<Rightarrow> checksum \<Rightarrow> aurix_packet \<Rightarrow> media_keys \<Rightarrow> aurix_packet" where
  "sealed H ks crc p keys =
     (let h = p_header p;
          cipher = apply_ctr ks keys (iv keys (type_u8 (h_type h)) (h_ssrc h) (h_sequence h)
            (h_timestamp h)) (p_payload p);
          h' = h\<lparr>h_flags := h_flags h OR (flag_u16 Authenticated OR flag_u16 Encrypted),
                h_length := of_nat (length (p_payload p)), h_checksum := crc cipher\<rparr>
      in \<lparr> p_header = h', p_payload = cipher,
           p_tag = Some (take 16 (H (mk_auth keys) (encode_header h' @ cipher))) \<rparr>)"

lemma has_flag_or:
  "has_flag f (h\<lparr>h_flags := h_flags h OR (flag_u16 g OR flag_u16 g')\<rparr>) \<longleftrightarrow>
     f = g \<or> f = g' \<or> has_flag f h"
  using flag_bit_less [of f]
  by (auto simp: has_flag_bit flag_u16_exp bit_or_iff bit_exp_iff flag_bit_inject)

lemma sealed_flags [simp]:
  "has_flag f (p_header (sealed H ks crc p keys)) \<longleftrightarrow>
     f = Authenticated \<or> f = Encrypted \<or> has_flag f (p_header p)"
  using has_flag_or [of f "p_header p" Authenticated Encrypted]
  by (simp add: sealed_def Let_def has_flag_def)

lemma seal_wire: "seal H ks crc p keys = wire (sealed H ks crc p keys)"
  by (simp add: seal_def seal_parts_def sealed_def wire_def Let_def hmac_sha256_def AUTH_TAG_SIZE_def)

lemma sealed_ok:
  assumes "\<And>k m. length (H k m) = 32" and "h_version (p_header p) = PROTOCOL_VERSION"
    and "length (p_payload p) < 65536" and "length (p_payload p) + 46 \<le> n"
  shows "wire_ok crc n (sealed H ks crc p keys)"
proof -
  have "has_flag Authenticated (p_header (sealed H ks crc p keys))" by simp
  then show ?thesis
    using assms by (simp add: wire_ok_def sealed_def Let_def wire_def AUTH_TAG_SIZE_def unat_of_nat)
qed

lemma sealed_verifies: "verify_auth H keys (sealed H ks crc p keys)"
  by (simp add: verify_auth_def sealed_def Let_def constant_time_eq_def hmac_sha256_def
      AUTH_TAG_SIZE_def)

lemma open_sealed:
  "open_packet H ks crc keys (sealed H ks crc p keys) =
     (True, (sealed H ks crc p keys)\<lparr>
        p_header := (clear_flag Encrypted (set_flag Authenticated (finalized_header crc p))),
        p_payload := p_payload p\<rparr>)"
proof -
  have "has_flag Encrypted (p_header (sealed H ks crc p keys))" by simp
  then show ?thesis
    by (simp add: open_packet_def sealed_verifies)
      (simp add: sealed_def Let_def finalized_header_def clear_flag_def set_flag_def clear_or_flags)
qed

text \<open>
  C3: Sealing and opening are inverse: a sealed packet that fits the size bound is accepted by the
  decoder and opened by the holder of the same keys, and what comes out is the plaintext payload
  under the original header with \<open>Authenticated\<close> set, \<open>Encrypted\<close> cleared, and the length and
  CRC of the plaintext.
\<close>

theorem seal_decode_open:
  assumes "\<And>k m. length (H k m) = 32" and "h_version (p_header p) = PROTOCOL_VERSION"
    and "length (p_payload p) < 65536" and "length (p_payload p) + 46 \<le> n"
  shows "\<exists>q tag. decode_bounded crc (seal H ks crc p keys) n = Inr q
     \<and> open_packet H ks crc keys q = (True,
         \<lparr> p_header = clear_flag Encrypted (set_flag Authenticated (finalized_header crc p)),
           p_payload = p_payload p, p_tag = Some tag \<rparr>)"
proof -
  have "decode_bounded crc (seal H ks crc p keys) n = Inr (sealed H ks crc p keys)"
    unfolding seal_wire by (rule decode_bounded_wire, rule sealed_ok) (use assms in simp_all)
  then show ?thesis
    by (auto simp: open_sealed) (auto simp: sealed_def Let_def)
qed

theorem seal_decode_open_witness:
  "\<exists>q tag. decode_bounded (\<lambda>b. of_nat (length b))
       (seal (\<lambda>k m. replicate 32 (of_nat (length m))) (\<lambda>k v i. of_nat i + 3) (\<lambda>b. of_nat (length b))
          (audio 1 960 7 3 [10, 20, 30]) sample_keys) 1400 = Inr q
     \<and> open_packet (\<lambda>k m. replicate 32 (of_nat (length m))) (\<lambda>k v i. of_nat i + 3)
         (\<lambda>b. of_nat (length b)) sample_keys q = (True,
         \<lparr> p_header = clear_flag Encrypted (set_flag Authenticated
              (finalized_header (\<lambda>b. of_nat (length b)) (audio 1 960 7 3 [10, 20, 30]))),
           p_payload = p_payload (audio 1 960 7 3 [10, 20, 30]), p_tag = Some tag \<rparr>)"
  by (rule seal_decode_open) (simp_all add: audio_def new_packet_def new_header_def)


section \<open>Plain encoding\<close>

text \<open>What a packet looks like after a plain encode and decode.\<close>

definition plain :: "checksum \<Rightarrow> aurix_packet \<Rightarrow> aurix_packet" where
  "plain crc p = new_packet (clear_flag Authenticated (finalized_header crc p)) (p_payload p)"

lemma encode_wire: "encode crc p = wire (plain crc p)"
  by (simp add: encode_def plain_def wire_def new_packet_def)

lemma finalized_header_fields [simp]:
  "h_version (finalized_header crc p) = h_version (p_header p)"
  "h_length (finalized_header crc p) = of_nat (length (p_payload p))"
  "h_checksum (finalized_header crc p) = crc (p_payload p)"
  "has_flag f (finalized_header crc p) = has_flag f (p_header p)"
  by (simp_all add: finalized_header_def)

lemma plain_ok:
  assumes "h_version (p_header p) = PROTOCOL_VERSION"
    and "length (p_payload p) + 30 \<le> n" and "n < 65536"
  shows "wire_ok crc n (plain crc p)"
  using assms by (simp add: wire_ok_def plain_def new_packet_def wire_def unat_of_nat)

lemma decode_encode:
  assumes "h_version (p_header p) = PROTOCOL_VERSION" and "length (p_payload p) + 30 \<le> 1400"
  shows "decode crc (encode crc p) = Inr (plain crc p)"
  unfolding decode_def encode_wire
  by (rule decode_bounded_wire, rule plain_ok) (use assms in \<open>simp_all add: size_consts\<close>)

section \<open>Relay envelopes: transport of a client packet between nodes\<close>

lemma bit_hop_mark: "bit RELAY_HOP_MARK i \<longleftrightarrow> i = 7"
proof -
  have "bit (2 ^ 7 :: u8) i \<longleftrightarrow> possible_bit TYPE(u8) i \<and> i = 7"
    by (simp only: bit_exp_iff)
  then show ?thesis by (auto simp: RELAY_HOP_MARK_def)
qed

lemma bit_hop_mask: "bit RELAY_HOP_MASK i \<longleftrightarrow> i < 4"
proof -
  have eq: "RELAY_HOP_MASK = mask 4" by (simp add: RELAY_HOP_MASK_def mask_eq_exp_minus_1)
  show ?thesis unfolding eq by (auto simp: bit_simps)
qed

lemma hop_byte_mark: "(RELAY_HOP_MARK OR (n AND RELAY_HOP_MASK)) AND NOT RELAY_HOP_MASK = RELAY_HOP_MARK"
  by (rule bit_word_eqI) (auto simp: bit_simps bit_hop_mark bit_hop_mask)

lemma hop_byte_value:
  "(RELAY_HOP_MARK OR (n AND RELAY_HOP_MASK)) AND RELAY_HOP_MASK = n AND RELAY_HOP_MASK"
  by (rule bit_word_eqI) (auto simp: bit_simps bit_hop_mark bit_hop_mask)

lemma get_be_append:
  "length xs = n \<Longrightarrow> get_be n 0 (xs @ ys) = of_be xs"
  by (simp add: get_be_def)

lemma of_be_to_be_128 [simp, wire]: "of_be (to_be 16 w) = (w :: u128)"
  by (simp add: of_be_to_be)

lemma length_encode [wire]: "length (encode crc p) = 30 + length (p_payload p)"
  by (simp add: encode_def)

lemma length_envelope [wire]:
  "length (p_payload (relay_envelope_inner crc inner s c sender hop)) =
     46 + (case hop of None \<Rightarrow> 0 | Some _ \<Rightarrow> 1) + length (p_payload inner)"
  by (simp add: relay_envelope_inner_def Let_def new_packet_def length_encode split: option.split)

lemma envelope_header [simp]:
  "h_version (p_header (relay_envelope_inner crc inner s c sender hop)) = PROTOCOL_VERSION"
  "h_type (p_header (relay_envelope_inner crc inner s c sender hop)) = Relay"
  "has_flag RelayHop (p_header (relay_envelope_inner crc inner s c sender hop)) \<longleftrightarrow> hop \<noteq> None"
  by (auto simp: relay_envelope_inner_def Let_def new_packet_def new_header_def has_flag_def
      flag_u16.simps set_flag_def split: option.split)

lemma envelope_payload:
  "p_payload (relay_envelope_inner crc inner s c sender hop) = to_be 16 sender @
     (case hop of None \<Rightarrow> [] | Some n \<Rightarrow> [RELAY_HOP_MARK OR (n AND RELAY_HOP_MASK)]) @ encode crc inner"
  by (simp add: relay_envelope_inner_def Let_def new_packet_def split: option.split)

text \<open>Any packet that keeps the type, the hop flag and the payload of an envelope unwraps.\<close>

lemma relay_inner_hop_envelope:
  assumes "h_version (p_header inner) = PROTOCOL_VERSION"
    and "length (p_payload inner) + 30 \<le> 1400"
    and "h_type (p_header q) = Relay" and "has_flag RelayHop (p_header q) \<longleftrightarrow> hop \<noteq> None"
    and "p_payload q = p_payload (relay_envelope_inner crc inner s c sender hop)"
  shows "relay_inner_hop crc q = Inr (sender, map_option (\<lambda>n. n AND RELAY_HOP_MASK) hop, plain crc inner)"
proof (cases hop)
  case None
  with assms decode_encode [OF assms(1,2), of crc] show ?thesis
    by (simp add: relay_inner_hop_def envelope_payload length_encode HEADER_SIZE_def get_be_append)
next
  case (Some n)
  with assms decode_encode [OF assms(1,2), of crc] show ?thesis
    by (simp add: relay_inner_hop_def envelope_payload length_encode HEADER_SIZE_def get_be_append
        nth_append hop_byte_mark hop_byte_value)
qed

text \<open>
  C4: A relayed packet arrives: a client packet wrapped in an envelope (with or without a hop
  count), sealed with the cluster keys, received within \<open>MAX_RELAY_PACKET_SIZE\<close> and opened, unwraps
  to the sending user, the low four bits of the hop count, and the client packet in plain form.
  The payload bound is 1354 bytes without and 1353 bytes with a hop byte.
\<close>

theorem relay_transport:
  assumes "\<And>k m. length (H k m) = 32" and "h_version (p_header inner) = PROTOCOL_VERSION"
    and "length (p_payload inner) + (case hop of None \<Rightarrow> 0 | Some _ \<Rightarrow> 1) \<le> 1354"
  shows "\<exists>q q'. decode_bounded crc
        (seal H ks crc (relay_envelope_inner crc inner s c sender hop) keys) MAX_RELAY_PACKET_SIZE = Inr q
     \<and> open_packet H ks crc keys q = (True, q')
     \<and> relay_inner_hop crc q' = Inr (sender, map_option (\<lambda>n. n AND RELAY_HOP_MASK) hop, plain crc inner)"
proof -
  let ?env = "relay_envelope_inner crc inner s c sender hop"
  let ?q = "sealed H ks crc ?env keys"
  let ?q' = "snd (open_packet H ks crc keys ?q)"
  have small: "length (p_payload ?env) + 46 \<le> MAX_RELAY_PACKET_SIZE"
    using assms(3) by (simp add: length_envelope size_consts)
  have "wire_ok crc MAX_RELAY_PACKET_SIZE ?q"
    by (rule sealed_ok [OF assms(1)]) (use small in \<open>simp_all add: size_consts\<close>)
  then have "decode_bounded crc (seal H ks crc ?env keys) MAX_RELAY_PACKET_SIZE = Inr ?q"
    unfolding seal_wire by (rule decode_bounded_wire)
  moreover have "open_packet H ks crc keys ?q = (True, ?q')" by (simp add: open_sealed)
  moreover have "relay_inner_hop crc ?q' =
      Inr (sender, map_option (\<lambda>n. n AND RELAY_HOP_MASK) hop, plain crc inner)"
    by (rule relay_inner_hop_envelope [OF assms(2)])
      (use assms(3) in \<open>auto simp: open_sealed finalized_header_def split: option.splits\<close>)
  ultimately show ?thesis by blast
qed

theorem relay_transport_witness:
  "\<exists>q q'. decode_bounded (\<lambda>b. of_nat (length b))
        (seal (\<lambda>k m. replicate 32 (of_nat (length m))) (\<lambda>k v i. of_nat i + 3) (\<lambda>b. of_nat (length b))
          (relay_envelope_inner (\<lambda>b. of_nat (length b)) (audio 1 960 7 3 [10, 20]) 99 5 77 (Some 3))
          sample_keys) MAX_RELAY_PACKET_SIZE = Inr q
     \<and> open_packet (\<lambda>k m. replicate 32 (of_nat (length m))) (\<lambda>k v i. of_nat i + 3)
         (\<lambda>b. of_nat (length b)) sample_keys q = (True, q')
     \<and> relay_inner_hop (\<lambda>b. of_nat (length b)) q' =
         Inr (77, map_option (\<lambda>n. n AND RELAY_HOP_MASK) (Some 3),
              plain (\<lambda>b. of_nat (length b)) (audio 1 960 7 3 [10, 20]))"
  by (rule relay_transport) (simp_all add: audio_def new_packet_def new_header_def)

lemma length_seal:
  "(\<And>k m. length (H k m) = 32) \<Longrightarrow> length (seal H ks crc p keys) = 46 + length (p_payload p)"
  by (simp add: seal_def seal_parts_def Let_def hmac_sha256_def AUTH_TAG_SIZE_def)

text \<open>
  C6: The relay size limit is one byte short for hop envelopes: a client packet with a 1354 byte
  payload is a legal datagram of exactly \<open>MAX_PACKET_SIZE\<close> bytes when its client seals it, but
  wrapped in a hop-counted envelope and sealed for the next node it is refused by
  \<open>decode_bounded\<close> with \<open>MAX_RELAY_PACKET_SIZE\<close>, whatever the keys and the contents.
\<close>

theorem relay_hop_oversize:
  assumes "\<And>k m. length (H k m) = 32" and "length (p_payload inner) = 1354"
  shows "length (seal H ks crc inner client_keys) = MAX_PACKET_SIZE
     \<and> decode_bounded crc (seal H ks crc (relay_envelope_hop crc inner s c sender hop) keys)
         MAX_RELAY_PACKET_SIZE = Inl ExceedsMaximum"
  using assms
  by (simp add: length_seal relay_envelope_hop_def length_envelope decode_bounded_def size_consts)

theorem relay_hop_oversize_witness:
  "length (seal (\<lambda>k m. replicate 32 0) (\<lambda>k v i. 1) (\<lambda>b. 0) (audio 1 960 7 3 (replicate 1354 8)) sample_keys)
     = MAX_PACKET_SIZE
   \<and> decode_bounded (\<lambda>b. 0) (seal (\<lambda>k m. replicate 32 0) (\<lambda>k v i. 1) (\<lambda>b. 0)
       (relay_envelope_hop (\<lambda>b. 0) (audio 1 960 7 3 (replicate 1354 8)) 99 5 77 1) sample_keys)
       MAX_RELAY_PACKET_SIZE = Inl ExceedsMaximum"
  by (rule relay_hop_oversize) (simp_all add: audio_def new_packet_def)

section \<open>Session binds\<close>

text \<open>
  C7: A session bind survives the network: the bind a client builds and signs with
  \<open>encode_authenticated\<close> is accepted by the decoder, verifies under the same keys, is not marked
  encrypted, and parses back to the session id, the 64-bit clock and the 64-bit nonce.
\<close>

theorem session_bind_roundtrip:
  assumes "\<And>k m. length (H k m) = 32"
  shows "\<exists>q. decode crc (encode_authenticated H crc keys (session_bind sid s ms nonce)) = Inr q
     \<and> verify_auth H keys q \<and> \<not> has_flag Encrypted (p_header q)
     \<and> parse_session_bind q = Inr (sid, ms, nonce)"
proof -
  let ?p = "session_bind sid s ms nonce"
  let ?h = "clear_flag Encrypted (set_flag Authenticated (finalized_header crc ?p))"
  let ?buf = "encode_header ?h @ p_payload ?p"
  let ?q = "\<lparr> p_header = ?h, p_payload = p_payload ?p,
      p_tag = Some (take 16 (H (mk_auth keys) ?buf)) \<rparr>"
  have len: "length (p_payload ?p) = 32" by (simp add: session_bind_def new_packet_def)
  have "encode_authenticated H crc keys ?p = wire ?q"
    by (simp add: encode_authenticated_def wire_def Let_def hmac_sha256_def AUTH_TAG_SIZE_def)
  moreover have "wire_ok crc MAX_PACKET_SIZE ?q"
    using assms by (simp add: wire_ok_def wire_def len size_consts unat_of_nat)
      (simp add: session_bind_def new_packet_def new_header_def)
  ultimately have "decode crc (encode_authenticated H crc keys ?p) = Inr ?q"
    by (simp add: decode_def decode_bounded_wire)
  moreover have "verify_auth H keys ?q"
    by (simp add: verify_auth_def Let_def hmac_sha256_def constant_time_eq_def AUTH_TAG_SIZE_def)
  moreover have "parse_session_bind ?q = Inr (sid, ms, nonce)"
    by (simp add: parse_session_bind_def finalized_header_def session_bind_def new_packet_def
        new_header_def SESSION_BIND_PAYLOAD_SIZE_def get_be_def)
  ultimately show ?thesis by auto
qed

theorem session_bind_roundtrip_witness:
  "\<exists>q. decode (\<lambda>b. 0) (encode_authenticated (\<lambda>k m. replicate 32 (of_nat (length m))) (\<lambda>b. 0) sample_keys
         (session_bind 12345 7 1700000000000 42)) = Inr q
     \<and> verify_auth (\<lambda>k m. replicate 32 (of_nat (length m))) sample_keys q
     \<and> \<not> has_flag Encrypted (p_header q)
     \<and> parse_session_bind q = Inr (12345, 1700000000000, 42)"
  by (rule session_bind_roundtrip) simp

section \<open>Audio metadata\<close>

lemma volume_byte_error:
  assumes "0 \<le> v" and "v \<le> 255 / 128"
  shows "\<bar>decode_volume_byte (encode_volume_byte v) - v\<bar> \<le> 1 / 256"
proof -
  let ?n = "\<lfloor>v * 128 + 1 / 2\<rfloor>"
  have lo: "0 \<le> ?n" using assms by (simp add: le_floor_iff)
  have hi: "?n < 256" using assms by (simp add: floor_less_iff)
  have "encode_volume_byte v = word_of_int ?n"
    using assms by (simp add: encode_volume_byte_def min_def max_def)
  then have "of_nat (unat (encode_volume_byte v)) = (of_int ?n :: rat)"
    using lo hi by (simp add: unat_eq_nat_uint uint_word_of_int)
  then have dec: "decode_volume_byte (encode_volume_byte v) = of_int ?n / 128"
    by (simp add: decode_volume_byte_def)
  have "of_int ?n \<le> v * 128 + 1 / 2" and "v * 128 + 1 / 2 < of_int ?n + 1"
    by linarith+
  then have "\<bar>of_int ?n / 128 - v\<bar> \<le> 1 / 256"
    by (intro abs_leI) linarith+
  then show ?thesis by (simp only: dec)
qed

lemma clear_set_absent: "\<not> has_flag f h \<Longrightarrow> clear_flag f (set_flag f h) = h"
proof -
  assume "\<not> has_flag f h"
  then have "h_flags (clear_flag f (set_flag f h)) = h_flags h"
    by (intro flags_word_eqI) auto
  then show ?thesis by (simp add: set_flag_def clear_flag_def)
qed

text \<open>The gain a receiver applies to a copy sent with volume \<open>v\<close>.\<close>

definition received_gain :: "rat \<Rightarrow> rat" where
  "received_gain v = (if attenuated v then decode_volume_byte (encode_volume_byte v) else 1)"

lemma received_gain_error:
  "0 \<le> v \<Longrightarrow> v \<le> 255 / 128 \<Longrightarrow> \<bar>received_gain v - v\<bar> \<le> 10737418 / 1073741824"
  using volume_byte_error [of v] by (auto simp: received_gain_def attenuated_def abs_if split: if_splits)

lemma set_flag_swap: "set_flag f (set_flag g h) = set_flag g (set_flag f h)"
  by (simp add: set_flag_def or.assoc or.commute [of "flag_u16 f"])

lemma flag_upd_length [simp]:
  "set_flag f (h\<lparr>h_length := n\<rparr>) = (set_flag f h)\<lparr>h_length := n\<rparr>"
  "clear_flag f (h\<lparr>h_length := n\<rparr>) = (clear_flag f h)\<lparr>h_length := n\<rparr>"
  by (simp_all add: set_flag_def clear_flag_def)

lemma take_downlink_parts:
  assumes "\<not> has_flag VolumeAttenuated (p_header p)" and "\<not> has_flag Directional (p_header p)"
    and "downlink_parts_with enc_dir p frame v d = (h, body)"
  shows "take_downlink_meta dec_dir (new_packet h body) =
     ((received_gain v, map_option (\<lambda>x. dec_dir (enc_dir x)) d),
      new_packet ((p_header p)\<lparr>h_length := of_nat (length frame)\<rparr>) frame)"
  using assms
  by (cases d; cases "attenuated v")
    (auto simp: downlink_parts_with_def take_downlink_meta_def new_packet_def received_gain_def
      clear_set_absent set_flag_swap [of Directional])

text \<open>
  C8: Downlink metadata round trip: the copy of an audio packet made for one receiver, whatever its
  gain and direction, is stripped by the receiver to exactly the frame and header flags it was made
  from; the direction comes back as its two-byte quantisation, and the gain differs from the
  requested volume (between silence and 255/128) by no more than the threshold \<open>0.01\<close> below which
  the gain byte is not sent at all.
\<close>

theorem downlink_roundtrip:
  assumes "\<not> has_flag VolumeAttenuated (p_header p)" and "\<not> has_flag Directional (p_header p)"
    and "0 \<le> v" and "v \<le> 255 / 128"
  shows "\<exists>h body gain. downlink_parts_with enc_dir p frame v d = (h, body)
     \<and> take_downlink_meta dec_dir (new_packet h body) =
         ((gain, map_option (\<lambda>x. dec_dir (enc_dir x)) d),
          new_packet ((p_header p)\<lparr>h_length := of_nat (length frame)\<rparr>) frame)
     \<and> \<bar>gain - v\<bar> \<le> 10737418 / 1073741824"
  using take_downlink_parts [OF assms(1,2)] received_gain_error [OF assms(3,4)]
  by (metis surj_pair)

theorem downlink_roundtrip_witness:
  "\<exists>h body gain. downlink_parts_with (\<lambda>x. x) (audio 1 960 7 3 [1, 2]) [1, 2] (1 / 2) (Some (5, 6)) = (h, body)
     \<and> take_downlink_meta (\<lambda>x. x) (new_packet h body) =
         ((gain, map_option (\<lambda>x. x) (Some (5, 6))),
          new_packet ((p_header (audio 1 960 7 3 [1, 2]))\<lparr>h_length := of_nat (length [1 :: u8, 2])\<rparr>) [1, 2])
     \<and> \<bar>gain - 1 / 2\<bar> \<le> 10737418 / 1073741824"
  by (rule downlink_roundtrip) (simp_all add: audio_def new_packet_def new_header_def has_flag_def)

lemma min_silence_idem: "min (min level AUDIO_LEVEL_SILENCE) AUDIO_LEVEL_SILENCE = min level AUDIO_LEVEL_SILENCE"
  by simp

text \<open>Re-attaching an audio level and taking it off again gives the level back, capped at 127.\<close>

lemma take_with_audio_level:
  assumes "\<not> has_flag Energy (p_header p)"
  shows "take_audio_level (with_audio_level p level) =
     (Some (min level AUDIO_LEVEL_SILENCE),
      new_packet ((p_header p)\<lparr>h_length := of_nat (length (p_payload p))\<rparr>) (p_payload p))"
  using assms by (simp add: take_audio_level_def with_audio_level_def new_packet_def clear_set_absent)

lemma audio_codec_set: "audio_codec_of (set_audio_codec c h) = c"
  by (cases c) (simp_all add: audio_codec_of_def set_audio_codec_def Let_def)

lemma set_audio_codec_other_flags:
  "f \<noteq> Pcmu \<Longrightarrow> f \<noteq> Pcma \<Longrightarrow> has_flag f (set_audio_codec c h) = has_flag f h"
  by (cases c) (simp_all add: set_audio_codec_def Let_def)

end
