(* ===== verification/Replay.thy ===== *)
theory Replay
  imports Prelude
begin

text \<open>
  The anti-replay windows of \<^verbatim>\<open>aurix-common/src/protocol.rs\<close>: the 64-packet window of a client
  session (\<^verbatim>\<open>ReplayWindow\<close>) and the 4096-packet window of a cascade link
  (\<^verbatim>\<open>WideReplayWindow\<close>), whose bitmap is an array of 64 words shifted in place.

  The contract both promise is the locale \<open>replay_window\<close>: a state represents the set of all
  counters accepted so far, and a counter is accepted exactly when it is \<open>fresh\<close> for that set. The
  locale's lemmas (a run of the window refines a run of the specification, and no counter is ever
  accepted twice) are proved once; both windows interpret it.
\<close>

unbundle bit_operations_syntax

section \<open>Definitions\<close>

record replay_state =
  rw_highest :: u64
  rw_bitmap :: u64
  rw_initialized :: bool

definition WINDOW :: u64 where "WINDOW = 64"

definition replay_default :: replay_state where
  "replay_default = \<lparr> rw_highest = 0, rw_bitmap = 0, rw_initialized = False \<rparr>"

definition check_and_update_u64 :: "u64 \<Rightarrow> replay_state \<Rightarrow> bool \<times> replay_state" where
  "check_and_update_u64 seq w =
     (if \<not> rw_initialized w then
        (True, w\<lparr>rw_initialized := True, rw_highest := seq, rw_bitmap := 1\<rparr>)
      else if seq > rw_highest w then
        (let delta = seq - rw_highest w;
             bm = (if delta \<ge> WINDOW then 1
                   else push_bit (unat delta) (rw_bitmap w) OR 1)
         in (True, w\<lparr>rw_bitmap := bm, rw_highest := seq\<rparr>))
      else
        (let delta = rw_highest w - seq
         in if delta \<ge> WINDOW then (False, w)
            else
              (let msk = push_bit (unat delta) (1 :: u64)
               in if rw_bitmap w AND msk \<noteq> 0 then (False, w)
                  else (True, w\<lparr>rw_bitmap := rw_bitmap w OR msk\<rparr>))))"

definition check_and_update :: "u32 \<Rightarrow> replay_state \<Rightarrow> bool \<times> replay_state" where
  "check_and_update seq w = check_and_update_u64 (ucast seq) w"

record wide_state =
  ww_highest :: u64
  ww_bitmap :: "u64 list"
  ww_initialized :: bool

definition WIDE_REPLAY_WORDS :: nat where "WIDE_REPLAY_WORDS = 64"
definition WIDE_REPLAY_WINDOW :: u64 where "WIDE_REPLAY_WINDOW = of_nat WIDE_REPLAY_WORDS * 64"

definition wide_default :: wide_state where
  "wide_default =
     \<lparr> ww_highest = 0, ww_bitmap = replicate WIDE_REPLAY_WORDS 0, ww_initialized = False \<rparr>"

definition wide_bit :: "u64 \<Rightarrow> nat \<times> u64" where
  "wide_bit delta = (unat (delta div 64), push_bit (unat (delta mod 64)) 1)"

text \<open>
  The loop of \<^verbatim>\<open>shift_left\<close> runs over the word indices from the highest down and overwrites each
  word in place; \<open>shift_loop n\<close> handles the indices below \<open>n\<close>.
\<close>

primrec shift_loop :: "nat \<Rightarrow> nat \<Rightarrow> nat \<Rightarrow> u64 list \<Rightarrow> u64 list" where
  "shift_loop 0 words bits bm = bm"
| "shift_loop (Suc i) words bits bm =
     (let v = (if i \<ge> words then
                 (let v1 = push_bit bits (bm ! (i - words))
                  in if bits > 0 \<and> i > words
                     then v1 OR drop_bit (64 - bits) (bm ! (i - words - 1)) else v1)
               else 0)
      in shift_loop i words bits (bm[i := v]))"

definition shift_left :: "u64 \<Rightarrow> u64 list \<Rightarrow> u64 list" where
  "shift_left by_n bm =
     (if by_n \<ge> WIDE_REPLAY_WINDOW then replicate WIDE_REPLAY_WORDS 0
      else shift_loop WIDE_REPLAY_WORDS (unat (by_n div 64)) (unat (by_n mod 64)) bm)"

definition wide_check_and_update_u64 :: "u64 \<Rightarrow> wide_state \<Rightarrow> bool \<times> wide_state" where
  "wide_check_and_update_u64 seq w =
     (if \<not> ww_initialized w then
        (True, w\<lparr>ww_initialized := True, ww_highest := seq,
                 ww_bitmap := (replicate WIDE_REPLAY_WORDS 0)[0 := 1]\<rparr>)
      else if seq > ww_highest w then
        (let bm = shift_left (seq - ww_highest w) (ww_bitmap w)
         in (True, w\<lparr>ww_bitmap := bm[0 := bm ! 0 OR 1], ww_highest := seq\<rparr>))
      else
        (let delta = ww_highest w - seq
         in if delta \<ge> WIDE_REPLAY_WINDOW then (False, w)
            else
              (let (word, msk) = wide_bit delta
               in if ww_bitmap w ! word AND msk \<noteq> 0 then (False, w)
                  else (True, w\<lparr>ww_bitmap := (ww_bitmap w)[word := ww_bitmap w ! word OR msk]\<rparr>))))"

section \<open>The contract\<close>

text \<open>
  \<open>fresh W A q\<close>: with \<open>A\<close> the set of counters accepted so far, \<open>q\<close> is acceptable when nothing was
  accepted yet, when \<open>q\<close> is newer than everything accepted, or when it is less than \<open>W\<close> behind the
  newest and not among the accepted ones.
\<close>

definition fresh :: "nat \<Rightarrow> u64 set \<Rightarrow> u64 \<Rightarrow> bool" where
  "fresh W A q \<longleftrightarrow> A = {} \<or> q > Max A \<or> unat (Max A - q) < W \<and> q \<notin> A"

text \<open>The specification run: the answers to a sequence of counters and the final accepted set.\<close>

fun spec_run :: "nat \<Rightarrow> u64 set \<Rightarrow> u64 list \<Rightarrow> bool list \<times> u64 set" where
  "spec_run W A [] = ([], A)"
| "spec_run W A (q # qs) =
     (let ok = fresh W A q; (oks, A') = spec_run W (if ok then insert q A else A) qs
      in (ok # oks, A'))"

fun window_run :: "('q \<Rightarrow> 's \<Rightarrow> bool \<times> 's) \<Rightarrow> 's \<Rightarrow> 'q list \<Rightarrow> bool list \<times> 's" where
  "window_run check s [] = ([], s)"
| "window_run check s (q # qs) =
     (let (ok, s') = check q s; (oks, s'') = window_run check s' qs in (ok # oks, s''))"

text \<open>The counters a run accepted, in order.\<close>

definition accepted :: "'q list \<Rightarrow> bool list \<Rightarrow> 'q list" where
  "accepted qs oks = map fst (filter snd (zip qs oks))"

locale replay_window =
  fixes check :: "u64 \<Rightarrow> 's \<Rightarrow> bool \<times> 's"
    and initial :: 's
    and represents :: "'s \<Rightarrow> u64 set \<Rightarrow> bool"
    and width :: nat
  assumes represents_initial: "represents initial {}"
    and check_fresh: "represents s A \<Longrightarrow> fst (check q s) = fresh width A q"
    and check_represents:
      "represents s A \<Longrightarrow> represents (snd (check q s)) (if fresh width A q then insert q A else A)"
begin

lemma run_refines:
  "represents s A \<Longrightarrow>
     fst (window_run check s qs) = fst (spec_run width A qs)
     \<and> represents (snd (window_run check s qs)) (snd (spec_run width A qs))"
proof (induction qs arbitrary: s A)
  case Nil
  then show ?case by simp
next
  case (Cons q qs)
  let ?A = "if fresh width A q then insert q A else A"
  obtain ok s' where step: "check q s = (ok, s')" by (cases "check q s")
  have ok: "ok = fresh width A q" and s': "represents s' ?A"
    using check_fresh [OF Cons.prems, of q] check_represents [OF Cons.prems, of q] step by simp_all
  from Cons.IH [OF s'] show ?case
    by (simp add: step ok Let_def case_prod_beta)
qed

lemma run_from_initial:
  "fst (window_run check initial qs) = fst (spec_run width {} qs)"
  using run_refines [OF represents_initial] by simp

end

lemma not_fresh_member: "q \<in> A \<Longrightarrow> \<not> fresh W A q"
  by (auto simp: fresh_def dest: Max_ge [OF finite])

lemma spec_run_accepted:
  "distinct (accepted qs (fst (spec_run W A qs)))
   \<and> set (accepted qs (fst (spec_run W A qs))) \<inter> A = {}"
proof (induction qs arbitrary: A)
  case Nil
  then show ?case by (simp add: accepted_def)
next
  case (Cons q qs)
  show ?case
  proof (cases "fresh W A q")
    case True
    then have "q \<notin> A" using not_fresh_member by blast
    with True Cons.IH [of "insert q A"] show ?thesis
      by (auto simp: accepted_def Let_def case_prod_beta)
  next
    case False
    with Cons.IH [of A] show ?thesis
      by (simp add: accepted_def Let_def case_prod_beta)
  qed
qed

section \<open>Bitmaps as sets\<close>

text \<open>
  What a window's fields say about the accepted set, over any bitmap: \<open>mark d\<close> tells whether the
  counter \<open>d\<close> below the highest is marked.
\<close>

definition tracks :: "nat \<Rightarrow> u64 \<Rightarrow> (nat \<Rightarrow> bool) \<Rightarrow> u64 set \<Rightarrow> bool" where
  "tracks W hi mark A \<longleftrightarrow> A \<noteq> {} \<and> hi = Max A
     \<and> (\<forall>q \<le> hi. unat (hi - q) < W \<longrightarrow> (mark (unat (hi - q)) \<longleftrightarrow> q \<in> A))"

lemma tracks_first: "0 < W \<Longrightarrow> (\<And>d. d < W \<Longrightarrow> mark d \<longleftrightarrow> d = 0) \<Longrightarrow> tracks W q mark {q}"
  by (auto simp: tracks_def unat_eq_0)

lemma tracksD:
  "tracks W hi mark A \<Longrightarrow> q \<le> hi \<Longrightarrow> unat (hi - q) < W \<Longrightarrow> mark (unat (hi - q)) \<longleftrightarrow> q \<in> A"
  by (auto simp: tracks_def)

lemma tracks_advance:
  assumes tr: "tracks W hi mark A" and new: "hi < seq"
    and mark': "\<And>d. d < W \<Longrightarrow> mark' d \<longleftrightarrow> d = 0 \<or> unat (seq - hi) \<le> d \<and> mark (d - unat (seq - hi))"
  shows "tracks W seq mark' (insert seq A)"
  unfolding tracks_def
proof (intro conjI allI impI)
  from tr have A: "A \<noteq> {}" and hi: "hi = Max A" by (simp_all add: tracks_def)
  then have "Max (insert seq A) = max seq hi" by simp
  then show "seq = Max (insert seq A)" using new by (simp add: max_absorb1 less_imp_le)
  fix q assume q: "q \<le> seq" and d: "unat (seq - q) < W"
  show "mark' (unat (seq - q)) \<longleftrightarrow> q \<in> insert seq A"
  proof (cases "q \<le> hi")
    case True
    have eq: "unat (seq - q) - unat (seq - hi) = unat (hi - q)" "unat (seq - hi) \<le> unat (seq - q)"
      using True q new by (simp_all add: unat_sub word_le_nat_alt word_less_nat_alt)
    have "q \<noteq> seq" using True new by auto
    then have "mark' (unat (seq - q)) \<longleftrightarrow> mark (unat (hi - q))"
      using mark' [OF d] eq by (simp add: unat_eq_0)
    moreover have "mark (unat (hi - q)) \<longleftrightarrow> q \<in> A"
      using tracksD [OF tr True] d eq by simp
    ultimately show ?thesis using \<open>q \<noteq> seq\<close> by simp
  next
    case False
    then have "q \<notin> A" using hi Max_ge [of A q] by auto
    have "\<not> unat (seq - hi) \<le> unat (seq - q)"
      using False q new by (simp add: unat_sub word_le_nat_alt word_less_nat_alt)
    then show ?thesis using mark' [OF d] \<open>q \<notin> A\<close> by (auto simp: unat_eq_0)
  qed
qed simp

lemma tracks_mark:
  assumes tr: "tracks W hi mark A" and le: "seq \<le> hi"
    and mark': "\<And>d. d < W \<Longrightarrow> mark' d \<longleftrightarrow> mark d \<or> d = unat (hi - seq)"
  shows "tracks W hi mark' (insert seq A)"
  unfolding tracks_def
proof (intro conjI allI impI)
  from tr have A: "A \<noteq> {}" and hi: "hi = Max A" by (simp_all add: tracks_def)
  then have "Max (insert seq A) = max seq hi" by simp
  then show "hi = Max (insert seq A)" using le by (simp add: max_def)
  fix q assume q: "q \<le> hi" and d: "unat (hi - q) < W"
  have "unat (hi - q) = unat (hi - seq) \<longleftrightarrow> q = seq" by (simp flip: word_unat_eq_iff)
  then show "mark' (unat (hi - q)) \<longleftrightarrow> q \<in> insert seq A"
    using tr q d mark' [OF d] by (auto simp: tracks_def)
qed simp

lemma tracks_fresh:
  assumes "tracks W hi mark A"
  shows "fresh W A q \<longleftrightarrow> hi < q \<or> q \<le> hi \<and> unat (hi - q) < W \<and> \<not> mark (unat (hi - q))"
proof -
  from assms have "A \<noteq> {}" and hi: "Max A = hi"
    and marks: "\<And>q. q \<le> hi \<Longrightarrow> unat (hi - q) < W \<Longrightarrow> mark (unat (hi - q)) \<longleftrightarrow> q \<in> A"
    by (auto simp: tracks_def)
  then show ?thesis unfolding fresh_def hi by (auto simp: not_less)
qed

section \<open>The 64-packet window\<close>

definition represents64 :: "replay_state \<Rightarrow> u64 set \<Rightarrow> bool" where
  "represents64 w A \<longleftrightarrow>
     (if rw_initialized w then tracks 64 (rw_highest w) (bit (rw_bitmap w)) A else A = {})"

lemma WINDOW_le: "WINDOW \<le> d \<longleftrightarrow> 64 \<le> unat d"
  by (simp add: WINDOW_def word_le_nat_alt)

lemma check64_fresh:
  assumes "represents64 w A"
  shows "fst (check_and_update_u64 q w) = fresh 64 A q"
proof (cases "rw_initialized w")
  case True
  with assms tracks_fresh [of 64 "rw_highest w" "bit (rw_bitmap w)" A q] show ?thesis
    by (auto simp: represents64_def check_and_update_u64_def Let_def WINDOW_le
        and_exp_eq_0_iff_not_bit not_le not_less)
next
  case False
  with assms show ?thesis by (simp add: represents64_def check_and_update_u64_def fresh_def)
qed

lemma check64_represents:
  assumes "represents64 w A"
  shows "represents64 (snd (check_and_update_u64 q w)) (if fresh 64 A q then insert q A else A)"
proof (cases "rw_initialized w")
  case False
  with assms show ?thesis
    by (auto simp: represents64_def check_and_update_u64_def fresh_def bit_1_iff intro!: tracks_first)
next
  case init: True
  let ?hi = "rw_highest w"
  from assms init have tr: "tracks 64 ?hi (bit (rw_bitmap w)) A" by (simp add: represents64_def)
  consider (newer) "?hi < q"
    | (window) "q \<le> ?hi" "unat (?hi - q) < 64" "\<not> bit (rw_bitmap w) (unat (?hi - q))"
    | (refused) "\<not> fresh 64 A q"
    using tracks_fresh [OF tr, of q] by auto
  then show ?thesis
  proof cases
    case newer
    let ?d = "unat (q - ?hi)"
    have "tracks 64 q (bit (if q - ?hi \<ge> WINDOW then 1 else push_bit ?d (rw_bitmap w) OR 1)) (insert q A)"
    proof (rule tracks_advance [OF tr newer])
      fix d :: nat assume "d < 64"
      then show "bit (if q - ?hi \<ge> WINDOW then 1 else push_bit ?d (rw_bitmap w) OR 1) d \<longleftrightarrow>
          d = 0 \<or> ?d \<le> d \<and> bit (rw_bitmap w) (d - ?d)"
        by (auto simp: WINDOW_le bit_simps)
    qed
    with newer init tracks_fresh [OF tr, of q] show ?thesis
      by (simp add: represents64_def check_and_update_u64_def Let_def)
  next
    case window
    have "tracks 64 ?hi (bit (rw_bitmap w OR push_bit (unat (?hi - q)) 1)) (insert q A)"
      by (rule tracks_mark [OF tr window(1)]) (auto simp: bit_or_iff bit_exp_iff)
    moreover have "\<not> ?hi < q" using window(1) by simp
    ultimately show ?thesis
      using window init tracks_fresh [OF tr, of q]
      by (simp add: represents64_def check_and_update_u64_def Let_def WINDOW_le
          and_exp_eq_0_iff_not_bit)
  next
    case refused
    with init tracks_fresh [OF tr, of q] have "snd (check_and_update_u64 q w) = w"
      by (auto simp: check_and_update_u64_def Let_def WINDOW_le and_exp_eq_0_iff_not_bit not_less)
    with refused assms show ?thesis by simp
  qed
qed

interpretation rw64: replay_window check_and_update_u64 replay_default represents64 64
proof
  show "represents64 replay_default {}" by (simp add: represents64_def replay_default_def)
qed (rule check64_fresh check64_represents, assumption)+

section \<open>The 4096-packet window\<close>

text \<open>The word a shift stores at index \<open>i\<close>, read off the bitmap before the shift.\<close>

definition shifted_word :: "nat \<Rightarrow> nat \<Rightarrow> u64 list \<Rightarrow> nat \<Rightarrow> u64" where
  "shifted_word words bits bm i =
     (if i \<ge> words then
        (let v1 = push_bit bits (bm ! (i - words))
         in if bits > 0 \<and> i > words
            then v1 OR drop_bit (64 - bits) (bm ! (i - words - 1)) else v1)
      else 0)"

lemma shift_loop_Suc:
  "shift_loop (Suc i) words bits bm = shift_loop i words bits (bm[i := shifted_word words bits bm i])"
  by (simp add: shifted_word_def)

lemma length_shift_loop [simp]: "length (shift_loop n words bits bm) = length bm"
  by (induction n arbitrary: bm) (simp_all add: shift_loop_Suc del: shift_loop.simps(2))

lemma shifted_word_update: "j < i \<Longrightarrow> shifted_word words bits (bm[i := v]) j = shifted_word words bits bm j"
  by (simp add: shifted_word_def Let_def)

text \<open>Working downwards in place reads only words that are not yet overwritten.\<close>

lemma shift_loop_nth:
  "n \<le> length bm \<Longrightarrow> j < length bm \<Longrightarrow>
     shift_loop n words bits bm ! j = (if j < n then shifted_word words bits bm j else bm ! j)"
proof (induction n arbitrary: bm)
  case 0
  then show ?case by simp
next
  case (Suc i)
  then show ?case
    by (auto simp: shift_loop_Suc shifted_word_update nth_list_update less_Suc_eq
        simp del: shift_loop.simps(2))
qed

definition wbit :: "u64 list \<Rightarrow> nat \<Rightarrow> bool" where
  "wbit bm d = bit (bm ! (d div 64)) (d mod 64)"

lemma wbit_split: "b < 64 \<Longrightarrow> wbit bm (64 * i + b) = bit (bm ! i) b"
  by (simp add: wbit_def)

lemma shifted_word_bit:
  assumes b: "b < 64" and bits: "bits < 64"
  shows "bit (shifted_word words bits bm i) b \<longleftrightarrow>
     64 * words + bits \<le> 64 * i + b \<and> wbit bm (64 * i + b - (64 * words + bits))"
proof (cases "bits \<le> b")
  case True
  show ?thesis
  proof (cases "words \<le> i")
    case wi: True
    then have eq: "64 * i + b - (64 * words + bits) = 64 * (i - words) + (b - bits)"
      using True by (simp add: algebra_simps)
    have "wbit bm (64 * i + b - (64 * words + bits)) = bit (bm ! (i - words)) (b - bits)"
      unfolding eq by (rule wbit_split) (use b in simp)
    moreover have "\<not> bit (bm ! (i - Suc words)) (64 - bits + b)"
      using True bits bit_imp_le_length [of "bm ! (i - Suc words)" "64 - bits + b"] by auto
    ultimately show ?thesis
      using wi True b by (auto simp: shifted_word_def Let_def bit_simps wbit_split)
  next
    case False
    then show ?thesis using b by (simp add: shifted_word_def)
  qed
next
  case False
  show ?thesis
  proof (cases "words < i")
    case wi: True
    then have eq: "64 * i + b - (64 * words + bits) = 64 * (i - Suc words) + (64 - bits + b)"
      using False bits by (simp add: algebra_simps)
    have "wbit bm (64 * i + b - (64 * words + bits)) = bit (bm ! (i - Suc words)) (64 - bits + b)"
      unfolding eq by (rule wbit_split) (use False bits in simp)
    then show ?thesis
      using wi False b bits by (auto simp: shifted_word_def Let_def bit_simps wbit_split)
  next
    case nwi: False
    then have "\<not> 64 * words + bits \<le> 64 * i + b" using False by linarith
    then show ?thesis using nwi False b by (auto simp: shifted_word_def Let_def bit_simps)
  qed
qed

lemma WIDE_le: "WIDE_REPLAY_WINDOW \<le> d \<longleftrightarrow> 4096 \<le> unat d"
  by (simp add: WIDE_REPLAY_WINDOW_def WIDE_REPLAY_WORDS_def word_le_nat_alt)

lemma length_shift_left [simp]: "length bm = 64 \<Longrightarrow> length (shift_left n bm) = 64"
  by (simp add: shift_left_def WIDE_REPLAY_WORDS_def)

lemma wbit_shift_left:
  assumes len: "length bm = 64" and d: "d < 4096"
  shows "wbit (shift_left n bm) d \<longleftrightarrow> unat n \<le> d \<and> wbit bm (d - unat n)"
proof (cases "4096 \<le> unat n")
  case True
  with d show ?thesis
    by (auto simp: shift_left_def WIDE_le WIDE_REPLAY_WORDS_def wbit_def div_less_iff_less_mult)
next
  case False
  have i: "d div 64 < 64" using d by (simp add: div_less_iff_less_mult)
  have n: "64 * unat (n div 64) + unat (n mod 64) = unat n"
    by (simp add: unat_div_distrib unat_mod_distrib)
  have m: "unat (n mod 64) < 64" by (simp add: unat_mod_distrib)
  have "wbit (shift_left n bm) d = bit (shifted_word (unat (n div 64)) (unat (n mod 64)) bm (d div 64)) (d mod 64)"
    using False i len
    by (simp add: shift_left_def WIDE_le WIDE_REPLAY_WORDS_def wbit_def shift_loop_nth)
  also have "\<dots> \<longleftrightarrow> unat n \<le> d \<and> wbit bm (d - unat n)"
    using shifted_word_bit [OF _ m, of "d mod 64" "unat (n div 64)" bm "d div 64"] by (simp only: n) simp
  finally show ?thesis .
qed

lemma wbit_mark:
  assumes "length bm = 64" "d < 4096" "i < 64" "b < 64"
  shows "wbit (bm[i := bm ! i OR push_bit b 1]) d \<longleftrightarrow> wbit bm d \<or> d = 64 * i + b"
proof -
  have "d div 64 < 64" using assms(2) by (simp add: div_less_iff_less_mult)
  moreover have "d = 64 * i + b \<longleftrightarrow> d div 64 = i \<and> d mod 64 = b"
    using assms(4) by auto
  ultimately show ?thesis
    using assms by (auto simp: wbit_def nth_list_update bit_or_iff bit_exp_iff)
qed

lemma wide_bit_mark:
  assumes "length bm = 64" "d < 4096" "unat delta < 4096" and w: "wide_bit delta = (word, msk)"
  shows "wbit (bm[word := bm ! word OR msk]) d \<longleftrightarrow> wbit bm d \<or> d = unat delta"
proof -
  have i: "unat (delta div 64) < 64"
    using assms(3) by (simp add: unat_div_distrib div_less_iff_less_mult)
  have "64 * unat (delta div 64) + unat (delta mod 64) = unat delta"
    by (simp add: unat_div_distrib unat_mod_distrib)
  with wbit_mark [OF assms(1,2) i, of "unat (delta mod 64)"] w show ?thesis
    by (auto simp: wide_bit_def unat_mod_distrib)
qed

lemma wide_bit_test:
  "wide_bit delta = (word, msk) \<Longrightarrow> bm ! word AND msk = 0 \<longleftrightarrow> \<not> wbit bm (unat delta)"
  by (auto simp: wide_bit_def wbit_def and_exp_eq_0_iff_not_bit unat_div_distrib unat_mod_distrib)

definition represents_wide :: "wide_state \<Rightarrow> u64 set \<Rightarrow> bool" where
  "represents_wide w A \<longleftrightarrow> length (ww_bitmap w) = 64 \<and>
     (if ww_initialized w then tracks 4096 (ww_highest w) (wbit (ww_bitmap w)) A else A = {})"

lemma wide_check_fresh:
  assumes "represents_wide w A"
  shows "fst (wide_check_and_update_u64 q w) = fresh 4096 A q"
proof (cases "ww_initialized w")
  case True
  with assms tracks_fresh [of 4096 "ww_highest w" "wbit (ww_bitmap w)" A q] show ?thesis
    by (auto simp: represents_wide_def wide_check_and_update_u64_def Let_def WIDE_le
        wide_bit_test not_le not_less split: prod.splits)
next
  case False
  with assms show ?thesis
    by (simp add: represents_wide_def wide_check_and_update_u64_def fresh_def)
qed

lemma wide_check_first:
  assumes "\<not> ww_initialized w"
  shows "represents_wide (snd (wide_check_and_update_u64 q w)) {q}"
proof -
  have "wbit ((replicate 64 0)[0 := 1]) d \<longleftrightarrow> d = 0" if "d < 4096" for d
    using that wbit_mark [of "replicate 64 0" d 0 0] by (simp add: wbit_def div_less_iff_less_mult)
  with assms show ?thesis
    by (simp add: represents_wide_def wide_check_and_update_u64_def WIDE_REPLAY_WORDS_def tracks_first)
qed

lemma wide_check_represents:
  assumes rep: "represents_wide w A"
  shows "represents_wide (snd (wide_check_and_update_u64 q w))
           (if fresh 4096 A q then insert q A else A)"
proof (cases "ww_initialized w")
  case False
  with rep wide_check_first [OF False] show ?thesis by (simp add: represents_wide_def fresh_def)
next
  case init: True
  let ?hi = "ww_highest w" and ?bm = "ww_bitmap w"
  from rep init have tr: "tracks 4096 ?hi (wbit ?bm) A" and len: "length ?bm = 64"
    by (simp_all add: represents_wide_def)
  consider (newer) "?hi < q"
    | (window) "q \<le> ?hi" "unat (?hi - q) < 4096" "\<not> wbit ?bm (unat (?hi - q))"
    | (refused) "\<not> fresh 4096 A q"
    using tracks_fresh [OF tr, of q] by auto
  then show ?thesis
  proof cases
    case newer
    let ?s = "shift_left (q - ?hi) ?bm"
    have "tracks 4096 q (wbit (?s[0 := ?s ! 0 OR 1])) (insert q A)"
      by (rule tracks_advance [OF tr newer])
        (use len wbit_mark [of ?s _ 0 0] in \<open>auto simp: wbit_shift_left\<close>)
    with newer init len tracks_fresh [OF tr, of q] show ?thesis
      by (simp add: represents_wide_def wide_check_and_update_u64_def Let_def)
  next
    case window
    obtain word msk where wb: "wide_bit (?hi - q) = (word, msk)" by fastforce
    have "tracks 4096 ?hi (wbit (?bm[word := ?bm ! word OR msk])) (insert q A)"
      by (rule tracks_mark [OF tr window(1)]) (use len wb window(2) in \<open>simp add: wide_bit_mark\<close>)
    moreover have "\<not> ?hi < q" using window(1) by simp
    ultimately show ?thesis
      using window init len wb tracks_fresh [OF tr, of q] wide_bit_test [OF wb, of ?bm]
      by (simp add: represents_wide_def wide_check_and_update_u64_def Let_def WIDE_le)
  next
    case refused
    with init tracks_fresh [OF tr, of q] have "snd (wide_check_and_update_u64 q w) = w"
      by (auto simp: wide_check_and_update_u64_def Let_def WIDE_le wide_bit_test not_less
          split: prod.splits)
    with refused rep show ?thesis by simp
  qed
qed

interpretation rwide: replay_window wide_check_and_update_u64 wide_default represents_wide 4096
proof
  show "represents_wide wide_default {}"
    by (simp add: represents_wide_def wide_default_def WIDE_REPLAY_WORDS_def)
qed (simp_all only: wide_check_fresh wide_check_represents)

section \<open>Properties\<close>

text \<open>
  C9: the 4096-packet window answers every sequence of counters exactly as the specification does:
  it accepts a counter if and only if it is the first one, is newer than every accepted one, or is
  less than 4096 behind the newest accepted one and was never accepted. In particular no counter is
  accepted twice in a run, however the counters arrive and however far they jump.
\<close>

theorem wide_replay_window_exact:
  "fst (window_run wide_check_and_update_u64 wide_default qs) = fst (spec_run 4096 {} qs)
   \<and> distinct (accepted qs (fst (window_run wide_check_and_update_u64 wide_default qs)))"
  using spec_run_accepted [of qs 4096 "{}"] by (simp add: rwide.run_from_initial)

text \<open>
  C10: the 64-packet window of a client session, driven by the 32-bit sequence numbers of the packet
  headers, answers every sequence exactly as the specification with a window of 64, and never accepts
  a sequence number twice.
\<close>

theorem replay_window_exact:
  "fst (window_run check_and_update replay_default seqs) = fst (spec_run 64 {} (map ucast seqs))
   \<and> distinct (accepted seqs (fst (window_run check_and_update replay_default seqs)))"
proof -
  have "window_run check_and_update s seqs = window_run check_and_update_u64 s (map ucast seqs)" for s
    by (induction seqs arbitrary: s) (simp_all add: check_and_update_def)
  then have run: "fst (window_run check_and_update replay_default seqs)
      = fst (spec_run 64 {} (map ucast seqs))"
    by (simp add: rw64.run_from_initial)
  have "distinct (map ucast (accepted seqs (fst (spec_run 64 {} (map ucast seqs)))) :: u64 list)"
    using spec_run_accepted [of "map ucast seqs" 64 "{}"]
    by (simp add: accepted_def zip_map1 filter_map o_def case_prod_beta)
  with run show ?thesis by (simp add: distinct_map)
qed

end
