(* ===== verification/Framing.thy ===== *)
theory Framing
  imports Packet
begin

text \<open>
  Length-prefixed framing of packets on byte streams: \<^verbatim>\<open>aurix-common/src/framing.rs\<close> and the read
  loop of the TLS media tunnel in \<^verbatim>\<open>aurix-media/src/tls.rs\<close> that drives the decoder.

  The decoder is a buffer with a read offset; what it still has to parse is \<open>rest\<close>. The
  specification \<open>parse_stream\<close> reads a complete stream at once, and the lemmas show that feeding the
  decoder the same bytes in any chunks gives the same packets and the same reason to close.
\<close>

section \<open>Definitions\<close>

definition FRAME_PREFIX :: nat where "FRAME_PREFIX = 2"
definition MAX_FRAME_PAYLOAD :: nat where "MAX_FRAME_PAYLOAD = MAX_PACKET_SIZE"
definition MAX_FRAME :: nat where "MAX_FRAME = FRAME_PREFIX + MAX_FRAME_PAYLOAD"

lemmas frame_consts = FRAME_PREFIX_def MAX_FRAME_PAYLOAD_def MAX_FRAME_def MAX_PACKET_SIZE_def

datatype frame_error = FrameEmpty | FrameOversized nat

definition encode_frame :: "bytes \<Rightarrow> bytes option" where
  "encode_frame packet =
     (if packet = [] \<or> length packet > MAX_FRAME_PAYLOAD then None
      else Some (to_be 2 (of_nat (length packet) :: u16) @ packet))"

record frame_decoder =
  fd_buf :: bytes
  fd_read :: nat

definition new_decoder :: frame_decoder where
  "new_decoder = \<lparr> fd_buf = [], fd_read = 0 \<rparr>"

definition push :: "bytes \<Rightarrow> frame_decoder \<Rightarrow> frame_decoder" where
  "push data d =
     (let d = (if fd_read d > 0 \<and> (fd_read d \<ge> MAX_FRAME \<or> fd_read d = length (fd_buf d))
               then \<lparr> fd_buf = drop (fd_read d) (fd_buf d), fd_read = 0 \<rparr> else d)
      in d\<lparr>fd_buf := fd_buf d @ data\<rparr>)"

definition pending :: "frame_decoder \<Rightarrow> nat" where
  "pending d = length (fd_buf d) - fd_read d"

definition next_frame :: "frame_decoder \<Rightarrow> (frame_error + bytes option) \<times> frame_decoder" where
  "next_frame d =
     (let rest = drop (fd_read d) (fd_buf d)
      in if length rest < FRAME_PREFIX then (Inr None, d)
         else
           (let len = unat (of_be [rest ! 0, rest ! 1] :: u16)
            in if len = 0 then (Inl FrameEmpty, d)
               else if len > MAX_FRAME_PAYLOAD then (Inl (FrameOversized len), d)
               else if length rest < FRAME_PREFIX + len then (Inr None, d)
               else (Inr (Some (take len (drop FRAME_PREFIX rest))),
                     d\<lparr>fd_read := fd_read d + (FRAME_PREFIX + len)\<rparr>)))"

lemma next_frame_shrinks:
  "next_frame d = (Inr (Some p), d') \<Longrightarrow> pending d' < pending d"
  by (auto simp: next_frame_def Let_def pending_def FRAME_PREFIX_def split: if_splits)

text \<open>The inner loop of the tunnel's reader: all complete packets, and the violation if there is one.\<close>

function pull_frames :: "frame_decoder \<Rightarrow> bytes list \<times> frame_error option \<times> frame_decoder" where
  "pull_frames d =
     (case next_frame d of
        (Inl e, d') \<Rightarrow> ([], Some e, d')
      | (Inr None, d') \<Rightarrow> ([], None, d')
      | (Inr (Some p), d') \<Rightarrow> (let (ps, v, d'') = pull_frames d' in (p # ps, v, d'')))"
  by pat_completeness auto
termination
  by (relation "measure pending") (auto dest: next_frame_shrinks [OF sym] next_frame_shrinks)

declare pull_frames.simps [simp del]

text \<open>
  The reader of one connection: the chunks the stream delivers until it ends, the packets handed to
  \<^verbatim>\<open>on_packet\<close> in order, and why the connection is closed. Timeouts and read errors end the loop
  from outside and are not part of the run.
\<close>

datatype close_reason = Eof | EofInsideFrame | EmptyFrame | OversizedFrame

fun violation :: "frame_error \<Rightarrow> close_reason" where
  "violation FrameEmpty = EmptyFrame"
| "violation (FrameOversized _) = OversizedFrame"

fun read_loop :: "frame_decoder \<Rightarrow> bytes list \<Rightarrow> bytes list \<times> close_reason" where
  "read_loop d [] = ([], if pending d > 0 then EofInsideFrame else Eof)"
| "read_loop d (chunk # chunks) =
     (let (ps, v, d') = pull_frames (push chunk d)
      in case v of
           Some e \<Rightarrow> (ps, violation e)
         | None \<Rightarrow> (let (qs, r) = read_loop d' chunks in (ps @ qs, r)))"

text \<open>The writer task: packets that cannot be framed are skipped.\<close>

fun write_loop :: "bytes list \<Rightarrow> bytes" where
  "write_loop [] = []"
| "write_loop (packet # packets) =
     (case encode_frame packet of
        None \<Rightarrow> write_loop packets
      | Some frame \<Rightarrow> frame @ write_loop packets)"

text \<open>The decoder states between two reads of a connection; a read fills at most two maximal frames.\<close>

inductive reads :: "frame_decoder \<Rightarrow> bool" where
  start: "reads new_decoder"
| chunk: "reads d \<Longrightarrow> length c \<le> MAX_FRAME * 2 \<Longrightarrow> pull_frames (push c d) = (ps, None, d') \<Longrightarrow> reads d'"

section \<open>Specification: parsing a whole stream\<close>

function parse_stream :: "bytes \<Rightarrow> bytes list \<times> close_reason" where
  "parse_stream s =
     (if s = [] then ([], Eof)
      else if length s < 2 then ([], EofInsideFrame)
      else
        (let len = unat (of_be (take 2 s) :: u16)
         in if len = 0 then ([], EmptyFrame)
            else if len > 1400 then ([], OversizedFrame)
            else if length s < 2 + len then ([], EofInsideFrame)
            else (let (ps, r) = parse_stream (drop (2 + len) s)
                  in (take len (drop 2 s) # ps, r))))"
  by pat_completeness auto
termination by (relation "measure length") auto

declare parse_stream.simps [simp del]

section \<open>The decoder follows the specification\<close>

abbreviation rest :: "frame_decoder \<Rightarrow> bytes" where
  "rest d \<equiv> drop (fd_read d) (fd_buf d)"

definition in_buffer :: "frame_decoder \<Rightarrow> bool" where
  "in_buffer d \<longleftrightarrow> fd_read d \<le> length (fd_buf d)"

lemma length_rest: "length (rest d) = pending d"
  by (simp add: pending_def)

lemma take2: "2 \<le> length s \<Longrightarrow> [s ! 0, s ! 1] = take 2 s"
  by (cases s; cases "tl s") auto

lemma rest_push [simp]: "in_buffer d \<Longrightarrow> rest (push data d) = rest d @ data"
  by (simp add: push_def Let_def in_buffer_def)

lemma in_buffer_push [simp]: "in_buffer d \<Longrightarrow> in_buffer (push data d)"
  by (simp add: push_def Let_def in_buffer_def)

lemma next_frame_take:
  assumes s: "rest d = s"
  shows "next_frame d =
     (if length s < 2 then (Inr None, d)
      else
        (let len = unat (of_be (take 2 s) :: u16)
         in if len = 0 then (Inl FrameEmpty, d)
            else if len > 1400 then (Inl (FrameOversized len), d)
            else if length s < 2 + len then (Inr None, d)
            else (Inr (Some (take len (drop 2 s))), d\<lparr>fd_read := fd_read d + (2 + len)\<rparr>)))"
proof (cases "length s < 2")
  case False
  then have two: "[s ! 0, s ! 1] = take 2 s" by (intro take2) simp
  from False show ?thesis unfolding next_frame_def s Let_def frame_consts two by simp
qed (simp add: next_frame_def s FRAME_PREFIX_def)

lemma next_frame_None:
  assumes "next_frame d = (Inr None, d')"
  shows "d' = d \<and> parse_stream (rest d) = ([], if pending d > 0 then EofInsideFrame else Eof)"
proof -
  obtain s where s: "rest d = s" by simp
  from assms show ?thesis
    unfolding s next_frame_take [OF s] parse_stream.simps [of s] length_rest [symmetric]
    by (auto simp: Let_def split: if_splits)
qed

lemma next_frame_Inl:
  assumes "next_frame d = (Inl e, d')"
  shows "parse_stream (rest d @ later) = ([], violation e)"
proof -
  obtain s where s: "rest d = s" by simp
  from assms show ?thesis
    unfolding s next_frame_take [OF s] parse_stream.simps [of "s @ later"]
    by (auto simp: Let_def split: if_splits)
qed

lemma next_frame_Some:
  assumes "next_frame d = (Inr (Some p), d')" and "in_buffer d"
  shows "in_buffer d' \<and> parse_stream (rest d @ later) =
    (p # fst (parse_stream (rest d' @ later)), snd (parse_stream (rest d' @ later)))"
proof -
  obtain s where s: "rest d = s" by simp
  define len where "len = unat (of_be (take 2 s) :: u16)"
  from assms(1) have d': "d' = d\<lparr>fd_read := fd_read d + (2 + len)\<rparr>" "p = take len (drop 2 s)"
    and len: "2 + len \<le> length s" "0 < len" "len \<le> 1400"
    unfolding next_frame_take [OF s] len_def [symmetric] by (auto simp: Let_def split: if_splits)
  have "in_buffer d'" using assms(2) len(1) s by (auto simp: in_buffer_def d')
  moreover have rest': "rest d' = drop (2 + len) s"
    unfolding s [symmetric] by (simp add: d' add.commute)
  moreover have "parse_stream (s @ later) =
      (p # fst (parse_stream (drop (2 + len) s @ later)), snd (parse_stream (drop (2 + len) s @ later)))"
    using len by (subst parse_stream.simps) (auto simp: Let_def case_prod_beta d' simp flip: len_def)
  ultimately show ?thesis by (simp add: s)
qed

lemma pull_frames_Inl: "next_frame d = (Inl e, d') \<Longrightarrow> pull_frames d = ([], Some e, d')"
  by (subst pull_frames.simps) simp

lemma pull_frames_None: "next_frame d = (Inr None, d') \<Longrightarrow> pull_frames d = ([], None, d')"
  by (subst pull_frames.simps) simp

lemma pull_frames_Some:
  "next_frame d = (Inr (Some p), d') \<Longrightarrow> pull_frames d' = (ps, v, d'') \<Longrightarrow> pull_frames d = (p # ps, v, d'')"
  by (subst pull_frames.simps) simp

lemma next_frame_buf: "next_frame d = (r, d') \<Longrightarrow> fd_buf d' = fd_buf d"
  by (auto simp: next_frame_def Let_def split: if_splits)

lemma next_frame_same: "next_frame d = (Inl e, d') \<Longrightarrow> d' = d"
  by (auto simp: next_frame_def Let_def split: if_splits)

lemma pull_frames_parse:
  assumes "in_buffer d"
  shows "\<exists>ps v d'. pull_frames d = (ps, v, d') \<and> in_buffer d' \<and> fd_buf d' = fd_buf d
    \<and> (v = None \<longrightarrow> next_frame d' = (Inr None, d'))
    \<and> parse_stream (rest d @ later) =
        (case v of Some e \<Rightarrow> (ps, violation e)
         | None \<Rightarrow> (ps @ fst (parse_stream (rest d' @ later)), snd (parse_stream (rest d' @ later))))"
  using assms
proof (induction "pending d" arbitrary: d rule: less_induct)
  case less
  consider (err) e d1 where "next_frame d = (Inl e, d1)" | (wait) d1 where "next_frame d = (Inr None, d1)"
    | (frame) p d1 where "next_frame d = (Inr (Some p), d1)"
    by (metis old.sum.exhaust option.exhaust surj_pair)
  then show ?case
  proof cases
    case err
    with next_frame_same have "d1 = d" by blast
    with err less.prems show ?thesis
      by (simp add: pull_frames_Inl next_frame_Inl)
  next
    case wait
    with next_frame_None have "d1 = d" by blast
    with wait less.prems show ?thesis by (simp add: pull_frames_None)
  next
    case frame
    from next_frame_Some [OF frame less.prems, of later]
    have b: "in_buffer d1" and eq: "parse_stream (rest d @ later) =
          (p # fst (parse_stream (rest d1 @ later)), snd (parse_stream (rest d1 @ later)))" by auto
    from less.hyps [OF next_frame_shrinks [OF frame] b] obtain ps v d2 where
      pf: "pull_frames d1 = (ps, v, d2)" "in_buffer d2" "fd_buf d2 = fd_buf d1"
        "v = None \<longrightarrow> next_frame d2 = (Inr None, d2)"
        "parse_stream (rest d1 @ later) = (case v of Some e \<Rightarrow> (ps, violation e)
         | None \<Rightarrow> (ps @ fst (parse_stream (rest d2 @ later)), snd (parse_stream (rest d2 @ later))))"
      by blast
    from pull_frames_Some [OF frame pf(1)] pf(2-) eq next_frame_buf [OF frame] show ?thesis
      by (intro exI [of _ "p # ps"] exI [of _ v] exI [of _ d2]) (auto split: option.splits)
  qed
qed

lemma read_loop_parse:
  assumes "in_buffer d" and "next_frame d = (Inr None, d)"
  shows "read_loop d chunks = parse_stream (rest d @ concat chunks)"
  using assms
proof (induction chunks arbitrary: d)
  case Nil
  with next_frame_None [of d d] show ?case by simp
next
  case (Cons c cs)
  from pull_frames_parse [of "push c d" "concat cs"] Cons.prems(1) obtain ps v d' where
    pf: "pull_frames (push c d) = (ps, v, d')" and b: "in_buffer d'"
    and stop: "v = None \<longrightarrow> next_frame d' = (Inr None, d')"
    and eq: "parse_stream (rest d @ c @ concat cs) = (case v of Some e \<Rightarrow> (ps, violation e)
     | None \<Rightarrow> (ps @ fst (parse_stream (rest d' @ concat cs)), snd (parse_stream (rest d' @ concat cs))))"
    by auto
  show ?case
  proof (cases v)
    case None
    with Cons.IH [OF b] stop pf eq show ?thesis by (simp add: Let_def case_prod_beta)
  qed (use pf eq in simp)
qed

lemma next_frame_new [simp]: "next_frame new_decoder = (Inr None, new_decoder)"
  by (simp add: next_frame_def new_decoder_def FRAME_PREFIX_def)

lemma in_buffer_new [simp]: "in_buffer new_decoder"
  by (simp add: in_buffer_def new_decoder_def)

lemma read_loop_new: "read_loop new_decoder chunks = parse_stream (concat chunks)"
  by (simp add: read_loop_parse) (simp add: new_decoder_def)

lemma parse_frame:
  assumes "encode_frame p = Some f"
  shows "parse_stream (f @ later) = (p # fst (parse_stream later), snd (parse_stream later))"
proof -
  from assms have p: "p \<noteq> []" "length p \<le> 1400" and f: "f = to_be 2 (of_nat (length p) :: u16) @ p"
    by (auto simp: encode_frame_def frame_consts split: if_splits)
  have "unat (of_nat (length p) :: u16) = length p" using p(2) by (simp add: unat_of_nat)
  with p show ?thesis
    by (subst parse_stream.simps) (simp add: f Let_def case_prod_beta)
qed

lemma parse_write_loop: "parse_stream (write_loop packets) = (filter (\<lambda>p. encode_frame p \<noteq> None) packets, Eof)"
proof (induction packets)
  case Nil
  show ?case by (simp add: parse_stream.simps)
next
  case (Cons p ps)
  then show ?case by (cases "encode_frame p") (simp_all add: parse_frame)
qed

lemma reads_inv: "reads d \<Longrightarrow> in_buffer d \<and> next_frame d = (Inr None, d) \<and> length (fd_buf d) < 4 * MAX_FRAME"
proof (induction rule: reads.induct)
  case start
  show ?case by simp (simp add: new_decoder_def frame_consts)
next
  case (chunk d c ps d')
  from next_frame_take [of d] chunk.IH have "pending d < MAX_FRAME"
    by (auto simp: Let_def pending_def frame_consts split: if_splits)
  then have "length (fd_buf (push c d)) < 4 * MAX_FRAME"
    using chunk by (auto simp: push_def Let_def pending_def in_buffer_def)
  with pull_frames_parse [of "push c d" "[]"] chunk show ?case by fastforce
qed

section \<open>Properties\<close>

text \<open>
  C11: chunking does not matter. However the stream's bytes are split into reads, the tunnel's
  reader hands on the packets, and closes for the reason, that parsing the whole stream at once
  gives: every complete frame in order up to the first violation or the end of the stream.
\<close>

theorem tunnel_chunking: "read_loop new_decoder chunks = parse_stream (concat chunks)"
  by (rule read_loop_new)

text \<open>
  C12: frames survive the stream. What the writer task sends arrives at a reader, whatever the
  chunks, as exactly the packets that can be framed (not empty, at most 1400 bytes), in order and
  unchanged, and the stream ends between frames.
\<close>

theorem tunnel_roundtrip:
  assumes "concat chunks = write_loop packets"
  shows "read_loop new_decoder chunks = (filter (\<lambda>p. p \<noteq> [] \<and> length p \<le> MAX_FRAME_PAYLOAD) packets, Eof)"
proof -
  have "(\<lambda>p. encode_frame p \<noteq> None) = (\<lambda>p. p \<noteq> [] \<and> length p \<le> MAX_FRAME_PAYLOAD)"
    by (auto simp: encode_frame_def)
  with assms parse_write_loop [of packets] show ?thesis by (simp add: read_loop_new)
qed

theorem tunnel_roundtrip_witness:
  "read_loop new_decoder [[0], [2, 7, 8, 0], [1, 9]] = ([[7, 8], [9]], Eof)"
  using tunnel_roundtrip [of "[[0], [2, 7, 8, 0], [1, 9]]" "[[7, 8], [], [9]]"]
  by (simp add: encode_frame_def frame_consts to_be_def upt_rec)

text \<open>
  C13: the decoder is bounded. Between two reads it holds less than one maximal frame of unparsed
  bytes, and its buffer never reaches four maximal frames, however long the connection lives.
\<close>

theorem decoder_bounded:
  assumes "reads d"
  shows "pending d < MAX_FRAME \<and> length (fd_buf d) < 4 * MAX_FRAME"
  using reads_inv [OF assms] next_frame_take [of d]
  by (auto simp: Let_def pending_def frame_consts split: if_splits)

theorem decoder_bounded_witness:
  "pending \<lparr> fd_buf = [0, 1, 9, 0], fd_read = 3 \<rparr> < MAX_FRAME
   \<and> length (fd_buf \<lparr> fd_buf = [0, 1, 9, 0], fd_read = 3 \<rparr>) < 4 * MAX_FRAME"
proof (rule decoder_bounded, rule reads.chunk [OF reads.start])
  show "length [0, 1, 9, 0 :: u8] \<le> MAX_FRAME * 2" by (simp add: frame_consts)
  have "push [0, 1, 9, 0] new_decoder = \<lparr> fd_buf = [0, 1, 9, 0], fd_read = 0 \<rparr>"
    by (simp add: push_def new_decoder_def)
  moreover have "next_frame \<lparr> fd_buf = [0, 1, 9, 0], fd_read = 0 \<rparr>
      = (Inr (Some [9]), \<lparr> fd_buf = [0, 1, 9, 0], fd_read = 3 \<rparr>)"
    by (simp add: next_frame_def Let_def frame_consts of_be_def)
  moreover have "next_frame \<lparr> fd_buf = [0, 1, 9, 0], fd_read = 3 \<rparr>
      = (Inr None, \<lparr> fd_buf = [0, 1, 9, 0], fd_read = 3 \<rparr>)"
    by (simp add: next_frame_def FRAME_PREFIX_def)
  ultimately show "pull_frames (push [0, 1, 9, 0] new_decoder)
      = ([[9]], None, \<lparr> fd_buf = [0, 1, 9, 0], fd_read = 3 \<rparr>)"
    by (simp add: pull_frames_Some pull_frames_None)
qed

end
