(* ===== verification/Ordered_Map.thy ===== *)
theory Ordered_Map
  imports Prelude "HOL-Library.Multiset"
begin

text \<open>
  The part of \<^verbatim>\<open>std::collections::BTreeMap\<close> the sources use, as an association list in ascending
  key order: \<open>bt_insert\<close>, \<open>bt_remove\<close>, lookup by \<^const>\<open>map_of\<close>, and iteration in key order, which
  is the list itself. \<open>bt_ok\<close> is the ordering invariant; the lemmas give the map laws and how the
  operations act on a map split in two at a key.
\<close>

type_synonym ('k, 'v) btree = "('k \<times> 'v) list"

fun bt_insert :: "'k::linorder \<Rightarrow> 'v \<Rightarrow> ('k, 'v) btree \<Rightarrow> ('k, 'v) btree" where
  "bt_insert k v [] = [(k, v)]"
| "bt_insert k v ((k', v') # xs) =
     (if k < k' then (k, v) # (k', v') # xs
      else if k = k' then (k, v) # xs
      else (k', v') # bt_insert k v xs)"

definition bt_remove :: "'k \<Rightarrow> ('k, 'v) btree \<Rightarrow> ('k, 'v) btree" where
  "bt_remove k xs = filter (\<lambda>e. fst e \<noteq> k) xs"

definition bt_ok :: "('k::linorder, 'v) btree \<Rightarrow> bool" where
  "bt_ok xs \<longleftrightarrow> sorted_wrt (<) (map fst xs)"

lemma bt_ok_simps [simp]:
  "bt_ok []"
  "bt_ok ((k, v) # xs) \<longleftrightarrow> (\<forall>k' \<in> fst ` set xs. k < k') \<and> bt_ok xs"
  by (auto simp: bt_ok_def)

lemma bt_ok_append:
  "bt_ok (xs @ ys) \<longleftrightarrow> bt_ok xs \<and> bt_ok ys \<and> (\<forall>k \<in> fst ` set xs. \<forall>k' \<in> fst ` set ys. k < k')"
  by (auto simp: bt_ok_def sorted_wrt_append)

lemma bt_ok_distinct: "bt_ok xs \<Longrightarrow> distinct (map fst xs)"
  by (simp add: bt_ok_def strict_sorted_iff)

lemma keys_bt_insert [simp]: "fst ` set (bt_insert k v xs) = insert k (fst ` set xs)"
  by (induction k v xs rule: bt_insert.induct) auto

lemma bt_ok_insert [simp]: "bt_ok xs \<Longrightarrow> bt_ok (bt_insert k v xs)"
  by (induction k v xs rule: bt_insert.induct) (auto dest: order.strict_trans)

lemma bt_get_insert [simp]: "map_of (bt_insert k v xs) = (map_of xs)(k \<mapsto> v)" if "bt_ok xs"
  using that by (induction k v xs rule: bt_insert.induct) (auto simp: fun_eq_iff)

lemma bt_ok_remove [simp]: "bt_ok xs \<Longrightarrow> bt_ok (bt_remove k xs)"
  by (induction xs) (auto simp: bt_remove_def)

lemma keys_bt_remove [simp]: "fst ` set (bt_remove k xs) = fst ` set xs - {k}"
  by (auto simp: bt_remove_def)

lemma bt_get_remove [simp]: "map_of (bt_remove k xs) = (map_of xs)(k := None)"
  by (induction xs) (auto simp: bt_remove_def fun_eq_iff)

lemma length_bt_remove: "bt_ok xs \<Longrightarrow> k \<in> fst ` set xs \<Longrightarrow> Suc (length (bt_remove k xs)) = length xs"
proof (induction xs)
  case (Cons e xs)
  have "k \<notin> fst ` set xs \<Longrightarrow> filter (\<lambda>e. fst e \<noteq> k) xs = xs"
    by (rule filter_True) force
  with Cons show ?case by (cases e) (force simp: bt_remove_def)
qed simp

lemma bt_remove_hd: "bt_ok ((k, v) # xs) \<Longrightarrow> bt_remove k ((k, v) # xs) = xs"
  by (force simp: bt_remove_def filter_id_conv)

lemma bt_insert_append: "(\<forall>k' \<in> fst ` set xs. k' < k) \<Longrightarrow> bt_insert k v (xs @ ys) = xs @ bt_insert k v ys"
  by (induction xs) (auto simp: not_less less_imp_le)

lemma mset_bt_insert: "k \<notin> fst ` set xs \<Longrightarrow> mset (bt_insert k v xs) = add_mset (k, v) (mset xs)"
  by (induction k v xs rule: bt_insert.induct) auto

end
