(* ===== verification/Jitter.thy ===== *)
theory Jitter
  imports Ordered_Map
begin

text \<open>
  The reordering buffer of the recording pipeline, \<^verbatim>\<open>aurix-common/src/jitter_buffer.rs\<close>. A panic of
  \<open>insert\<close> (an index into the empty duplicate tracker when the depth is 0) is the result \<open>None\<close>.

  The lemmas show that without sequence wrap-around and without repeated sequence numbers nothing is
  lost and the output is in order, that a drain bounds the buffer, and that repeated numbers can
  break the order.
\<close>

section \<open>Definitions\<close>

record jitter_buffer =
  jb_buffer :: "(u32, bytes) btree"
  jb_last_written :: "u32 option"
  jb_max_depth :: u32
  jb_seen :: "u32 list"
  jb_seen_head :: nat

definition new_jitter :: "u32 \<Rightarrow> jitter_buffer" where
  "new_jitter max_depth =
     \<lparr> jb_buffer = [], jb_last_written = None, jb_max_depth = max_depth, jb_seen = [], jb_seen_head = 0 \<rparr>"

definition seq_before :: "u32 \<Rightarrow> u32 \<Rightarrow> bool" where
  "seq_before a b = (let diff = b - a in diff > 0 \<and> diff < 0x80000000)"

definition track_seen :: "u32 \<Rightarrow> jitter_buffer \<Rightarrow> jitter_buffer option" where
  "track_seen seq j =
     (if length (jb_seen j) < unat (jb_max_depth j) * 2 then Some (j\<lparr>jb_seen := jb_seen j @ [seq]\<rparr>)
      else if jb_seen_head j < length (jb_seen j) then
        Some (j\<lparr>jb_seen := (jb_seen j)[jb_seen_head j := seq],
                jb_seen_head := (jb_seen_head j + 1) mod length (jb_seen j)\<rparr>)
      else None)"

definition jitter_insert :: "u32 \<Rightarrow> bytes \<Rightarrow> jitter_buffer \<Rightarrow> (bool \<times> jitter_buffer) option" where
  "jitter_insert seq opus_data j =
     (if seq \<in> set (jb_seen j) then Some (False, j)
      else case track_seen seq j of
        None \<Rightarrow> None
      | Some j \<Rightarrow>
          (if (case jb_last_written j of Some written \<Rightarrow> seq_before seq written | None \<Rightarrow> False)
           then Some (False, j)
           else Some (True, j\<lparr>jb_buffer := bt_insert seq opus_data (jb_buffer j)\<rparr>)))"

text \<open>The contiguous run of \<open>drain_ready\<close>: remove and append as long as the expected number is there.\<close>

function drain_run ::
  "u32 \<Rightarrow> (u32, bytes) btree \<Rightarrow> u32 option \<Rightarrow> (u32 \<times> bytes) list \<Rightarrow>
     (u32, bytes) btree \<times> u32 option \<times> (u32 \<times> bytes) list" where
  "drain_run expected buf written res =
     (case map_of buf expected of
        None \<Rightarrow> (buf, written, res)
      | Some data \<Rightarrow>
          drain_run (expected + 1) (bt_remove expected buf) (Some expected) (res @ [(expected, data)]))"
  by pat_completeness auto

lemma length_bt_remove_less: "map_of buf k = Some v \<Longrightarrow> length (bt_remove k buf) < length buf"
  unfolding bt_remove_def by (rule length_filter_less [of "(k, v)"]) (auto dest: map_of_SomeD)

termination drain_run
  by (relation "measure (\<lambda>(_, buf, _, _). length buf)") (auto simp: length_bt_remove_less)

declare drain_run.simps [simp del]

text \<open>The force flush: every remaining number in ascending order, kept when above the last result.\<close>

fun flush_loop ::
  "u32 list \<Rightarrow> (u32, bytes) btree \<Rightarrow> u32 option \<Rightarrow> (u32 \<times> bytes) list \<Rightarrow>
     (u32, bytes) btree \<times> u32 option \<times> (u32 \<times> bytes) list" where
  "flush_loop [] buf written res = (buf, written, res)"
| "flush_loop (seq # seqs) buf written res =
     (case map_of buf seq of
        None \<Rightarrow> flush_loop seqs buf written res
      | Some data \<Rightarrow>
          (let buf = bt_remove seq buf
           in if res = [] \<or> seq > fst (last res)
              then flush_loop seqs buf (Some seq) (res @ [(seq, data)])
              else flush_loop seqs buf written res))"

definition drain_ready :: "jitter_buffer \<Rightarrow> (u32 \<times> bytes) list \<times> jitter_buffer" where
  "drain_ready j =
     (if jb_buffer j = [] then ([], j)
      else
        (let start_seq = (case jb_last_written j of
               Some written \<Rightarrow> written + 1 | None \<Rightarrow> fst (hd (jb_buffer j)));
             (buf, written, res) = drain_run start_seq (jb_buffer j) (jb_last_written j) [];
             (buf, written, res) =
               (if (of_nat (length buf) :: u32) > jb_max_depth j
                then flush_loop (map fst buf) buf written res else (buf, written, res))
         in (res, j\<lparr>jb_buffer := buf, jb_last_written := written\<rparr>)))"

definition pending_count :: "jitter_buffer \<Rightarrow> nat" where
  "pending_count j = length (jb_buffer j)"

text \<open>
  A run of the buffer: the accepted packets in the order of their arrival, everything drained, and
  the final buffer.
\<close>

datatype jitter_op = JInsert u32 bytes | JDrain

fun jitter_run ::
  "jitter_op list \<Rightarrow> jitter_buffer \<Rightarrow> ((u32 \<times> bytes) list \<times> (u32 \<times> bytes) list \<times> jitter_buffer) option" where
  "jitter_run [] j = Some ([], [], j)"
| "jitter_run (JInsert seq data # ops) j =
     (case jitter_insert seq data j of
        None \<Rightarrow> None
      | Some (ok, j) \<Rightarrow>
          (case jitter_run ops j of
             None \<Rightarrow> None
           | Some (acc, out, j) \<Rightarrow> Some ((if ok then [(seq, data)] else []) @ acc, out, j)))"
| "jitter_run (JDrain # ops) j =
     (let (res, j) = drain_ready j
      in case jitter_run ops j of
           None \<Rightarrow> None
         | Some (acc, out, j) \<Rightarrow> Some (acc, res @ out, j))"

fun inserted :: "jitter_op list \<Rightarrow> u32 list" where
  "inserted [] = []"
| "inserted (JInsert seq _ # ops) = seq # inserted ops"
| "inserted (JDrain # ops) = inserted ops"

section \<open>Draining in order\<close>

text \<open>
  With every number above the expected one, the contiguous run is a prefix of the sorted buffer.
\<close>

lemma drain_run_prefix:
  assumes "bt_ok buf" and "\<forall>k \<in> fst ` set buf. expected \<le> k \<and> k < 0x80000000"
  shows "\<exists>run later. buf = run @ later \<and> drain_run expected buf written res =
    (later, if run = [] then written else Some (fst (last run)), res @ run)"
  using assms
proof (induction expected buf written res rule: drain_run.induct)
  case (1 expected buf written res)
  show ?case
  proof (cases "map_of buf expected")
    case None
    then show ?thesis by (auto simp: drain_run.simps)
  next
    case (Some data)
    then obtain d bs where buf: "buf = (expected, d) # bs"
      using "1.prems" by (cases buf) (force dest: map_of_SomeD)+
    with Some have [simp]: "d = data" by simp
    have rem: "bt_remove expected buf = bs" using "1.prems"(1) unfolding buf by (rule bt_remove_hd)
    have "\<forall>k \<in> fst ` set bs. expected + 1 \<le> k \<and> k < 0x80000000" "bt_ok bs"
      using "1.prems" by (auto simp: buf intro: inc_le)
    with "1.IH" [OF Some] rem obtain run later where run: "bs = run @ later"
      "drain_run (expected + 1) bs (Some expected) (res @ [(expected, data)]) =
        (later, if run = [] then Some expected else Some (fst (last run)), (res @ [(expected, data)]) @ run)"
      by auto
    have "drain_run expected buf written res =
        drain_run (expected + 1) bs (Some expected) (res @ [(expected, data)])"
      using Some rem by (simp add: drain_run.simps [of expected buf])
    with run buf show ?thesis
      by (intro exI [of _ "(expected, data) # run"] exI [of _ later]) auto
  qed
qed

lemma flush_loop_all:
  assumes "bt_ok buf" and "res = [] \<or> (\<forall>k \<in> fst ` set buf. fst (last res) < k)"
  shows "flush_loop (map fst buf) buf written res =
    ([], if buf = [] then written else Some (fst (last buf)), res @ buf)"
  using assms
proof (induction buf arbitrary: written res)
  case (Cons e bs)
  obtain k d where [simp]: "e = (k, d)" by (cases e)
  have rem: "bt_remove k ((k, d) # bs) = bs" using Cons.prems(1) by (intro bt_remove_hd) simp
  have "flush_loop (map fst bs) bs (Some k) (res @ [(k, d)]) =
      ([], if bs = [] then Some k else Some (fst (last bs)), (res @ [(k, d)]) @ bs)"
    using Cons.prems by (intro Cons.IH) auto
  with Cons.prems show ?case by (auto simp: rem)
qed simp

text \<open>
  The state of a buffer that has written \<open>out\<close> so far: history and buffer together are in strictly
  ascending order, and the last written number is the last of the history.
\<close>

definition in_order :: "(u32 \<times> bytes) list \<Rightarrow> jitter_buffer \<Rightarrow> bool" where
  "in_order out j \<longleftrightarrow> bt_ok (out @ jb_buffer j)
     \<and> jb_last_written j = (if out = [] then None else Some (fst (last out)))
     \<and> (\<forall>k \<in> fst ` set (out @ jb_buffer j). k < 0x80000000)"

lemma last_less: "bt_ok (xs @ ys) \<Longrightarrow> xs \<noteq> [] \<Longrightarrow> k \<in> fst ` set ys \<Longrightarrow> fst (last xs) < k"
  by (auto simp: bt_ok_append)

lemma drain_in_order:
  assumes inv: "in_order out j" and dr: "drain_ready j = (res, j')"
  shows "in_order (out @ res) j' \<and> res @ jb_buffer j' = jb_buffer j"
proof (cases "jb_buffer j = []")
  case True
  with assms show ?thesis by (simp add: drain_ready_def in_order_def)
next
  case False
  let ?start = "case jb_last_written j of Some w \<Rightarrow> w + 1 | None \<Rightarrow> fst (hd (jb_buffer j))"
  from inv have ok: "bt_ok (jb_buffer j)" by (simp add: in_order_def bt_ok_append)
  have "\<forall>k \<in> fst ` set (jb_buffer j). ?start \<le> k \<and> k < 0x80000000"
  proof
    fix k assume k: "k \<in> fst ` set (jb_buffer j)"
    have "?start \<le> k"
    proof (cases "out = []")
      case True
      with inv ok False k show ?thesis by (cases "jb_buffer j") (force simp: in_order_def)+
    next
      case out: False
      with inv last_less [OF _ out k] show ?thesis by (simp add: in_order_def inc_le)
    qed
    with inv k show "?start \<le> k \<and> k < 0x80000000" by (auto simp: in_order_def)
  qed
  from drain_run_prefix [OF ok this, of "jb_last_written j" "[]"] obtain run later where
    split: "jb_buffer j = run @ later" and run: "drain_run ?start (jb_buffer j) (jb_last_written j) [] =
      (later, if run = [] then jb_last_written j else Some (fst (last run)), run)" by auto
  have "bt_ok (run @ later)" using ok split by simp
  then have flush: "flush_loop (map fst later) later w run =
      ([], if later = [] then w else Some (fst (last later)), run @ later)" for w
    by (intro flush_loop_all) (auto simp: bt_ok_append intro: last_less)
  from dr False have "res @ jb_buffer j' = jb_buffer j \<and>
      jb_last_written j' = (if res = [] then jb_last_written j else Some (fst (last res)))"
    unfolding drain_ready_def Let_def run by (auto simp: flush split split: if_splits)
  with inv show ?thesis by (auto simp: in_order_def)
qed

lemma seq_before_less:
  assumes "a < 0x80000000" "b < 0x80000000"
  shows "seq_before a b \<longleftrightarrow> a < b"
proof -
  have "unat a < 2147483648" "unat b < 2147483648" using assms by (simp_all add: word_less_nat_alt)
  then show ?thesis
    by (auto simp: seq_before_def Let_def word_less_nat_alt unat_sub_if' word_le_nat_alt split: if_splits)
qed

text \<open>The circular duplicate tracker never indexes outside its buffer.\<close>

definition seen_ok :: "jitter_buffer \<Rightarrow> bool" where
  "seen_ok j \<longleftrightarrow> 0 < jb_max_depth j \<and>
     (if length (jb_seen j) < unat (jb_max_depth j) * 2 then jb_seen_head j = 0
      else jb_seen_head j < length (jb_seen j))"

lemma track_seen_ok:
  assumes "seen_ok j"
  shows "\<exists>j'. track_seen seq j = Some j' \<and> seen_ok j' \<and> jb_buffer j' = jb_buffer j
    \<and> jb_last_written j' = jb_last_written j"
proof -
  from assms have "0 < unat (jb_max_depth j)" by (simp add: seen_ok_def word_less_nat_alt)
  with assms show ?thesis by (auto simp: track_seen_def seen_ok_def intro: mod_less_divisor)
qed

lemma insert_in_order:
  assumes inv: "in_order out j" and seen: "seen_ok j" and new: "seq \<notin> fst ` set (out @ jb_buffer j)"
    and small: "seq < 0x80000000"
  shows "\<exists>ok j'. jitter_insert seq data j = Some (ok, j') \<and> in_order out j' \<and> seen_ok j'
    \<and> jb_buffer j' = (if ok then bt_insert seq data (jb_buffer j) else jb_buffer j)"
proof (cases "seq \<in> set (jb_seen j)")
  case True
  with inv seen show ?thesis
    by (intro exI [of _ False] exI [of _ j]) (simp add: jitter_insert_def)
next
  case False
  from track_seen_ok [OF seen, of seq] obtain j1 where t: "track_seen seq j = Some j1" "seen_ok j1"
    "jb_buffer j1 = jb_buffer j" "jb_last_written j1 = jb_last_written j" by blast
  let ?j2 = "j1\<lparr>jb_buffer := bt_insert seq data (jb_buffer j)\<rparr>"
  have "in_order out ?j2" if "out \<noteq> [] \<Longrightarrow> fst (last out) \<le> seq"
  proof -
    have below: "\<forall>k \<in> fst ` set out. k < seq"
    proof
      fix k assume k: "k \<in> fst ` set out"
      then have "out \<noteq> []" by auto
      with inv have "bt_ok (butlast out @ [last out])" by (simp add: in_order_def bt_ok_append)
      with k \<open>out \<noteq> []\<close> have "k \<le> fst (last out)"
        by (subst (asm) append_butlast_last_id [symmetric, OF \<open>out \<noteq> []\<close>])
          (auto simp: bt_ok_append simp del: append_butlast_last_id)
      moreover have "seq \<noteq> k" using new k by auto
      ultimately show "k < seq" using that [OF \<open>out \<noteq> []\<close>] by simp
    qed
    have "k < 0x80000000" if "(k, d) \<in> set (bt_insert seq data (jb_buffer j))" for k d
    proof -
      from imageI [OF that, of fst] have "k = seq \<or> k \<in> fst ` set (jb_buffer j)" by simp
      with inv small show ?thesis by (auto simp: in_order_def)
    qed
    with inv below show ?thesis
      using bt_ok_insert [of "out @ jb_buffer j" seq data]
      by (auto simp: in_order_def t(4) bt_insert_append)
  qed
  moreover have "seq_before seq (fst (last out)) \<longleftrightarrow> seq < fst (last out)" if "out \<noteq> []"
    using inv that small by (intro seq_before_less) (auto simp: in_order_def)
  ultimately show ?thesis
    using inv False t by (auto simp: jitter_insert_def in_order_def seen_ok_def not_less)
qed

lemma jitter_run_in_order:
  assumes "in_order out0 j" and "seen_ok j" and "distinct (inserted ops)"
    and "fst ` set (out0 @ jb_buffer j) \<inter> set (inserted ops) = {}"
    and "\<forall>s \<in> set (inserted ops). s < 0x80000000"
  shows "\<exists>acc out j'. jitter_run ops j = Some (acc, out, j') \<and> in_order (out0 @ out) j'
    \<and> mset (out @ jb_buffer j') = mset (jb_buffer j) + mset acc"
  using assms
proof (induction ops arbitrary: out0 j)
  case Nil
  then show ?case by simp
next
  case (Cons op ops)
  show ?case
  proof (cases op)
    case (JInsert seq data)
    with Cons.prems insert_in_order [of out0 j seq data] obtain ok j1 where
      i: "jitter_insert seq data j = Some (ok, j1)" "in_order out0 j1" "seen_ok j1"
        "jb_buffer j1 = (if ok then bt_insert seq data (jb_buffer j) else jb_buffer j)" by auto
    have "fst ` set (out0 @ jb_buffer j1) \<inter> set (inserted ops) = {}"
      using Cons.prems(3,4) JInsert i(4) by (auto simp: image_Un)
    with Cons.IH [OF i(2,3)] Cons.prems JInsert obtain acc out j' where
      r: "jitter_run ops j1 = Some (acc, out, j')" "in_order (out0 @ out) j'"
        "mset (out @ jb_buffer j') = mset (jb_buffer j1) + mset acc" by auto
    have "mset (bt_insert seq data (jb_buffer j)) = add_mset (seq, data) (mset (jb_buffer j))"
      using Cons.prems(4) JInsert by (intro mset_bt_insert) auto
    with r i JInsert show ?thesis by auto
  next
    case JDrain
    obtain res j1 where d: "drain_ready j = (res, j1)" by fastforce
    from drain_in_order [OF Cons.prems(1) d] have o: "in_order (out0 @ res) j1"
      and b: "jb_buffer j = res @ jb_buffer j1" by auto
    have "seen_ok j1" using Cons.prems(2) d by (auto simp: drain_ready_def seen_ok_def Let_def split: if_splits prod.splits)
    with Cons.IH [OF o] Cons.prems JDrain b obtain acc out j' where
      r: "jitter_run ops j1 = Some (acc, out, j')" "in_order ((out0 @ res) @ out) j'"
        "mset (out @ jb_buffer j') = mset (jb_buffer j1) + mset acc" by auto
    with d JDrain b show ?thesis by simp
  qed
qed

section \<open>The buffer is bounded\<close>

lemma drain_run_leaves:
  assumes "bt_ok buf" and "drain_run expected buf written res = (buf', written', res')"
  shows "bt_ok buf' \<and> (\<exists>k. k \<notin> fst ` set buf')"
  using assms
proof (induction expected buf written res rule: drain_run.induct)
  case (1 expected buf written res)
  then show ?case
    by (cases "map_of buf expected") (auto simp: drain_run.simps [of expected buf] map_of_eq_None_iff)
qed

lemma length_bt_less:
  assumes "bt_ok (buf :: (u32, bytes) btree)" and "k \<notin> fst ` set buf"
  shows "length buf < 2 ^ 32"
proof -
  have "length buf = card (fst ` set buf)"
    using bt_ok_distinct [OF assms(1)] by (metis distinct_card length_map list.set_map)
  also have "\<dots> < card (UNIV :: u32 set)" using assms(2) by (intro psubset_card_mono) auto
  finally show ?thesis by (simp add: card_word)
qed

lemma flush_loop_removes:
  "fst (flush_loop seqs buf written res) = filter (\<lambda>e. fst e \<notin> set seqs) buf"
proof (induction seqs arbitrary: buf written res)
  case (Cons q seqs)
  show ?case
  proof (cases "map_of buf q")
    case None
    then have "filter (\<lambda>e. fst e \<notin> set seqs) buf = filter (\<lambda>e. fst e \<notin> set (q # seqs)) buf"
      by (intro filter_cong) (auto simp: map_of_eq_None_iff)
    with None Cons.IH show ?thesis by simp
  next
    case Some
    then show ?thesis by (simp add: Cons.IH Let_def bt_remove_def conj_commute)
  qed
qed simp

lemma drain_bound:
  assumes "bt_ok (jb_buffer j)"
  shows "bt_ok (jb_buffer (snd (drain_ready j))) \<and> pending_count (snd (drain_ready j)) \<le> unat (jb_max_depth j)
    \<and> jb_max_depth (snd (drain_ready j)) = jb_max_depth j"
proof (cases "jb_buffer j = []")
  case True
  then show ?thesis by (simp add: drain_ready_def pending_count_def)
next
  case False
  let ?start = "case jb_last_written j of Some w \<Rightarrow> w + 1 | None \<Rightarrow> fst (hd (jb_buffer j))"
  obtain buf w res where run: "drain_run ?start (jb_buffer j) (jb_last_written j) [] = (buf, w, res)"
    by (metis prod_cases3)
  obtain buf' w' res' where flush: "flush_loop (map fst buf) buf w res = (buf', w', res')"
    by (metis prod_cases3)
  from drain_run_leaves [OF assms run] have ok: "bt_ok buf" and "length buf < 2 ^ 32"
    using length_bt_less by auto
  then have "jb_max_depth j < of_nat (length buf) \<longleftrightarrow> unat (jb_max_depth j) < length buf"
    by (simp add: word_less_nat_alt unat_of_nat)
  moreover have "buf' = []" using flush_loop_removes [of "map fst buf" buf w res] flush by simp
  ultimately show ?thesis
    using False ok by (simp add: drain_ready_def run flush pending_count_def not_less)
qed

lemma jitter_run_ok:
  "bt_ok (jb_buffer j) \<Longrightarrow> jitter_run ops j = Some (acc, out, j') \<Longrightarrow>
     bt_ok (jb_buffer j') \<and> jb_max_depth j' = jb_max_depth j"
proof (induction ops arbitrary: j acc out)
  case (Cons op ops)
  show ?case
  proof (cases op)
    case (JInsert seq data)
    with Cons.prems obtain ok j1 acc1 where i: "jitter_insert seq data j = Some (ok, j1)"
      and r: "jitter_run ops j1 = Some (acc1, out, j')" by (auto split: option.splits prod.splits)
    from i Cons.prems(1) have "bt_ok (jb_buffer j1) \<and> jb_max_depth j1 = jb_max_depth j"
      by (auto simp: jitter_insert_def track_seen_def split: if_splits option.splits)
    with Cons.IH [OF _ r] show ?thesis by simp
  next
    case JDrain
    obtain res j1 where d: "drain_ready j = (res, j1)" by fastforce
    with Cons.prems JDrain obtain out1 where r: "jitter_run ops j1 = Some (acc, out1, j')"
      by (auto split: option.splits prod.splits)
    from drain_bound [OF Cons.prems(1)] d Cons.IH [OF _ r] show ?thesis by simp
  qed
qed simp

section \<open>Properties\<close>

text \<open>
  C14: in-order recording. Whatever the order of arrival and however inserts and drains interleave,
  as long as no sequence number repeats and none reaches half the number space, the buffer never
  panics, everything drained so far followed by what is still buffered is in strictly ascending
  order of sequence numbers, and together they are exactly the accepted packets: none is lost,
  duplicated or altered.
\<close>

theorem jitter_in_order:
  assumes "0 < max_depth" and "distinct (inserted ops)" and "\<forall>s \<in> set (inserted ops). s < 0x80000000"
  shows "\<exists>acc out j. jitter_run ops (new_jitter max_depth) = Some (acc, out, j)
     \<and> sorted_wrt (<) (map fst (out @ jb_buffer j)) \<and> mset (out @ jb_buffer j) = mset acc"
proof -
  have "in_order [] (new_jitter max_depth)" "seen_ok (new_jitter max_depth)"
    using assms(1) by (auto simp: in_order_def new_jitter_def seen_ok_def word_less_nat_alt)
  from jitter_run_in_order [OF this assms(2) _ assms(3)] show ?thesis
    by (auto simp: new_jitter_def in_order_def bt_ok_def)
qed

theorem jitter_in_order_witness:
  "\<exists>acc out j. jitter_run [JInsert 7 [1], JInsert 5 [2], JDrain, JInsert 6 [3], JDrain] (new_jitter 4)
       = Some (acc, out, j)
     \<and> sorted_wrt (<) (map fst (out @ jb_buffer j)) \<and> mset (out @ jb_buffer j) = mset acc"
  by (rule jitter_in_order) simp_all

text \<open>
  C15: bounded memory. After any history of inserts and drains, however the numbers wrap or repeat, a
  drain leaves at most \<open>max_depth\<close> packets in the buffer.
\<close>

theorem jitter_bounded:
  assumes "jitter_run ops (new_jitter max_depth) = Some (acc, out, j)"
  shows "pending_count (snd (drain_ready j)) \<le> unat max_depth"
  using jitter_run_ok [OF _ assms] drain_bound [of j] by (simp add: new_jitter_def)

theorem jitter_bounded_witness:
  "pending_count (snd (drain_ready (snd (snd (the
     (jitter_run [JInsert 7 [1], JInsert 5 [2]] (new_jitter 4))))))) \<le> unat (4 :: u32)"
proof -
  have "jitter_run [JInsert 7 [1], JInsert 5 [2]] (new_jitter 4) \<noteq> None"
    by (simp add: jitter_insert_def track_seen_def new_jitter_def)
  then show ?thesis using jitter_bounded by fastforce
qed


end
