(* ===== verification/G711.thy ===== *)
theory G711
  imports Prelude
begin

text \<open>
  The G.711 companding of \<^verbatim>\<open>aurix-common/src/g711.rs\<close>. Samples are 16-bit words read as signed
  integers; the 32-bit intermediate values are integers, which their range (below \<open>2 ^ 16\<close> in
  magnitude) keeps from overflowing. The \<^verbatim>\<open>f32\<close> variants, which only scale the samples, are left out.

  The lemmas describe both codecs by segment and mantissa, and bound the error of a sample that goes
  through encoder and decoder.
\<close>

unbundle bit_operations_syntax

section \<open>Definitions\<close>

type_synonym i16 = "16 word"

definition BIAS :: int where "BIAS = 0x84"
definition CLIP :: int where "CLIP = 32635"
definition ALAW_MASK :: u8 where "ALAW_MASK = 0x55"
definition ALAW_SEG_END :: "int list" where
  "ALAW_SEG_END = [0x1F, 0x3F, 0x7F, 0xFF, 0x1FF, 0x3FF, 0x7FF, 0xFFF]"

definition leading_zeros :: "u32 \<Rightarrow> nat" where
  "leading_zeros w = length (takeWhile (\<lambda>i. \<not> bit w i) (rev [0..<32]))"

definition ulaw_encode :: "i16 \<Rightarrow> u8" where
  "ulaw_encode sample =
     (let pcm = sint sample;
          (pcm, sign) = (if pcm < 0 then (- pcm, 0x80) else (pcm, 0x00 :: u8));
          pcm = (if pcm > CLIP then CLIP else pcm);
          pcm = pcm + BIAS;
          exponent = (31 - leading_zeros (of_int pcm)) - 7;
          mantissa = of_int (drop_bit (exponent + 3) pcm AND 0x0F) :: u8
      in NOT (sign OR push_bit 4 (of_nat exponent) OR mantissa))"

definition ulaw_decode :: "u8 \<Rightarrow> i16" where
  "ulaw_decode byte =
     (let u = uint (NOT byte);
          sign = u AND 0x80;
          exponent = nat (drop_bit 4 u AND 0x07);
          mantissa = u AND 0x0F;
          magnitude = push_bit exponent (push_bit 3 mantissa + BIAS) - BIAS
      in of_int (if sign \<noteq> 0 then - magnitude else magnitude))"

text \<open>\<open>position P xs\<close>: the index of the first element that satisfies \<open>P\<close>.\<close>

fun position :: "('a \<Rightarrow> bool) \<Rightarrow> 'a list \<Rightarrow> nat option" where
  "position P [] = None"
| "position P (x # xs) = (if P x then Some 0 else map_option Suc (position P xs))"

definition alaw_encode :: "i16 \<Rightarrow> u8" where
  "alaw_encode sample =
     (let pcm = drop_bit 3 (sint sample);
          (pcm, mask_byte) = (if pcm \<ge> 0 then (pcm, 0xD5) else (- pcm - 1, ALAW_MASK))
      in case position (\<lambda>seg_end. pcm \<le> seg_end) ALAW_SEG_END of
           None \<Rightarrow> 0x7F XOR mask_byte
         | Some seg \<Rightarrow>
             (let shift = (if seg < 2 then 1 else seg);
                  aval = push_bit 4 (of_nat seg) OR (of_int (drop_bit shift pcm AND 0x0F) :: u8)
              in aval XOR mask_byte))"

definition alaw_decode :: "u8 \<Rightarrow> i16" where
  "alaw_decode byte =
     (let a = uint (byte XOR ALAW_MASK);
          t = push_bit 4 (a AND 0x0F);
          seg = nat (drop_bit 4 (a AND 0x70));
          t = (if seg = 0 then t + 8
               else if seg = 1 then t + 0x108
               else push_bit (seg - 1) (t + 0x108))
      in of_int (if a AND 0x80 \<noteq> 0 then t else - t))"

datatype law = Mu | ALaw

fun encode_sample :: "law \<Rightarrow> i16 \<Rightarrow> u8" where
  "encode_sample Mu s = ulaw_encode s"
| "encode_sample ALaw s = alaw_encode s"

fun decode_sample :: "law \<Rightarrow> u8 \<Rightarrow> i16" where
  "decode_sample Mu b = ulaw_decode b"
| "decode_sample ALaw b = alaw_decode b"

definition law_encode :: "law \<Rightarrow> i16 list \<Rightarrow> bytes \<Rightarrow> bytes" where
  "law_encode l pcm out = out @ map (encode_sample l) pcm"

definition law_decode :: "law \<Rightarrow> bytes \<Rightarrow> i16 list \<Rightarrow> i16 list" where
  "law_decode l data out = out @ map (decode_sample l) data"

definition silence :: "law \<Rightarrow> u8" where
  "silence l = encode_sample l 0"

definition encode_g711 :: "i16 list \<Rightarrow> bytes \<Rightarrow> bytes" where
  "encode_g711 pcm out = out @ map ulaw_encode pcm"

definition decode_g711 :: "bytes \<Rightarrow> i16 list \<Rightarrow> i16 list" where
  "decode_g711 ulaw out = out @ map ulaw_decode ulaw"

section \<open>Segments\<close>

lemma leading_zeros_segment:
  assumes "2 ^ k \<le> p" "p < 2 ^ Suc k" "k < 32"
  shows "leading_zeros (of_int p) = 31 - k"
proof -
  have "p div 2 ^ k = 1"
    using assms(1,2) by (intro int_div_pos_eq [of _ _ _ "p - 2 ^ k"]) auto
  then have set_k: "bit (of_int p :: u32) k" using assms(3) by (simp add: bit_word_of_int_iff bit_iff_odd [of p])
  have clear: "\<not> bit (of_int p :: u32) i" if "k < i" for i
  proof -
    have "p < 2 ^ i" using assms(2) that power_increasing [of "Suc k" i "2 :: int"] by simp
    moreover have "0 \<le> p" using assms(1) by (smt (verit) zero_le_power)
    ultimately show ?thesis by (simp add: bit_word_of_int_iff bit_iff_odd [of p])
  qed
  have "[0..<32] = [0..<k] @ k # [Suc k..<32]"
    using assms(3) upt_add_eq_append [of 0 k "32 - k"] by (simp add: upt_conv_Cons)
  then have "takeWhile (\<lambda>i. \<not> bit (of_int p :: u32) i) (rev [0..<32]) = rev [Suc k..<32]"
    using set_k clear by (simp, subst takeWhile_append2) auto
  then show ?thesis by (simp add: leading_zeros_def)
qed

lemma segment_exists:
  fixes p :: int
  assumes "2 ^ a \<le> p" and "p < 2 ^ (a + n)"
  shows "\<exists>e < n. 2 ^ (a + e) \<le> p \<and> p < 2 ^ Suc (a + e)"
  using assms
proof (induction n)
  case (Suc n)
  show ?case
  proof (cases "p < 2 ^ (a + n)")
    case True
    with Suc obtain e where "e < n" "2 ^ (a + e) \<le> p" "p < 2 ^ Suc (a + e)" by blast
    then show ?thesis by (meson less_SucI)
  next
    case False
    with Suc.prems show ?thesis by (intro exI [of _ n]) auto
  qed
qed simp

text \<open>The leading bit and the four mantissa bits after it, and what is below them.\<close>

lemma mantissa_bits:
  fixes p :: int
  assumes "2 ^ (a + 4) \<le> p" "p < 2 ^ Suc (a + 4)"
  obtains m where "m < 16" "drop_bit a p AND 0x0F = int m"
    "(16 + int m) * 2 ^ a \<le> p" "p < (17 + int m) * 2 ^ a"
proof
  define q where "q = p div 2 ^ a"
  have r: "0 \<le> p mod 2 ^ a" "p mod 2 ^ a < 2 ^ a" "q * 2 ^ a + p mod 2 ^ a = p"
    unfolding q_def by (simp_all only: div_mult_mod_eq) simp_all
  then have lo: "q * 2 ^ a \<le> p" by linarith
  have hi: "p < (q + 1) * 2 ^ a" using r unfolding distrib_right by linarith
  have "16 * 2 ^ a < (q + 1) * (2 ^ a :: int)"
    by (rule le_less_trans [OF _ hi]) (use assms(1) in \<open>simp add: power_add\<close>)
  then have q16: "16 \<le> q" by (simp only: mult_less_cancel_right) simp
  have "q * 2 ^ a < 32 * (2 ^ a :: int)"
    by (rule le_less_trans [OF lo]) (use assms(2) in \<open>simp add: power_add\<close>)
  then have q32: "q < 32" by (simp only: mult_less_cancel_right) simp
  show "nat (q - 16) < 16" using q32 by simp
  have "drop_bit a p AND 0x0F = take_bit 4 q"
    by (simp add: q_def take_bit_eq_mask mask_eq_exp_minus_1 drop_bit_eq_div)
  also have "\<dots> = q - 16" unfolding take_bit_eq_mod using q16 q32 by simp presburger
  finally show "drop_bit a p AND 0x0F = int (nat (q - 16))" using q16 by simp
  show "(16 + int (nat (q - 16))) * 2 ^ a \<le> p" "p < (17 + int (nat (q - 16))) * 2 ^ a"
    using lo hi q16 by (simp_all add: algebra_simps)
qed

section \<open>\<mu>-law\<close>

lemma ulaw_decode_table:
  "list_all (\<lambda>e. list_all (\<lambda>m.
       sint (ulaw_decode (NOT (0 OR push_bit 4 (of_nat e) OR of_nat m)))
         = (16 + int m) * 2 ^ (e + 3) + 2 ^ (e + 2) - 132
     \<and> sint (ulaw_decode (NOT (0x80 OR push_bit 4 (of_nat e) OR of_nat m)))
         = - ((16 + int m) * 2 ^ (e + 3) + 2 ^ (e + 2) - 132)) [0..<16]) [0..<8]"
  by code_simp

lemma alaw_decode_table:
  "list_all (\<lambda>e. list_all (\<lambda>m.
       let t = (if e = 0 then int m * 16 + 8 else (16 + int m) * 2 ^ (e + 3) + 2 ^ (e + 2))
       in sint (alaw_decode ((push_bit 4 (of_nat e) OR of_nat m) XOR 0xD5)) = t
        \<and> sint (alaw_decode ((push_bit 4 (of_nat e) OR of_nat m) XOR 0x55)) = - t) [0..<16]) [0..<8]"
  by code_simp

lemma codepoint_table:
  "list_all (\<lambda>n. ulaw_encode (ulaw_decode (of_nat n)) = (if n = 0x7F then 0xFF else of_nat n)
     \<and> alaw_encode (alaw_decode (of_nat n)) = of_nat n) [0..<256]"
  by code_simp

lemma sint_i16: "- 32768 \<le> sint (s :: i16)" "sint (s :: i16) \<le> 32767"
  using sint_ge [of s] sint_lt [of s] by simp_all

lemma ulaw_encode_segment:
  fixes s :: i16
  defines "p \<equiv> min \<bar>sint s\<bar> 32635 + 132"
  obtains e m where "e < 8" "m < 16"
    "ulaw_encode s = NOT ((if sint s < 0 then 0x80 else 0) OR push_bit 4 (of_nat e) OR of_nat m)"
    "(16 + int m) * 2 ^ (e + 3) \<le> p" "p < (17 + int m) * 2 ^ (e + 3)" "2 ^ (e + 7) \<le> p"
proof -
  have "2 ^ 7 \<le> p" "p < 2 ^ (7 + 8)" by (auto simp: p_def min_def)
  from segment_exists [OF this] obtain e where e: "e < 8" "2 ^ (7 + e) \<le> p" "p < 2 ^ Suc (7 + e)"
    by blast
  then have exp: "31 - leading_zeros (of_int p) - 7 = e"
    using leading_zeros_segment [of "7 + e" p] by simp
  obtain m where m: "m < 16" "drop_bit (e + 3) p AND 0x0F = int m"
    "(16 + int m) * 2 ^ (e + 3) \<le> p" "p < (17 + int m) * 2 ^ (e + 3)"
    using mantissa_bits [of "e + 3" p] e by (auto simp: add.commute)
  have "(if \<bar>sint s\<bar> > CLIP then CLIP else \<bar>sint s\<bar>) + BIAS = p"
    by (simp add: p_def CLIP_def BIAS_def min_def)
  then have "ulaw_encode s = NOT ((if sint s < 0 then 0x80 else 0) OR push_bit 4 (of_nat e) OR of_nat m)"
    using exp m(2) by (auto simp: ulaw_encode_def Let_def abs_if split: if_splits)
  with e m that show ?thesis by (simp add: add.commute)
qed

lemma ulaw_decode_segment:
  assumes "e < 8" "m < 16"
  shows "sint (ulaw_decode (NOT ((if neg then 0x80 else 0) OR push_bit 4 (of_nat e) OR of_nat m)))
    = (if neg then - 1 else 1) * ((16 + int m) * 2 ^ (e + 3) + 2 ^ (e + 2) - 132)"
  using ulaw_decode_table assms by (auto simp: list_all_iff)

lemma ulaw_error: "32 * \<bar>sint (ulaw_decode (ulaw_encode s)) - sint s\<bar> \<le> \<bar>sint s\<bar> + 132"
proof -
  obtain e m where e: "e < 8" "m < 16"
    "ulaw_encode s = NOT ((if sint s < 0 then 0x80 else 0) OR push_bit 4 (of_nat e) OR of_nat m)"
    "(16 + int m) * 2 ^ (e + 3) \<le> min \<bar>sint s\<bar> 32635 + 132"
    "min \<bar>sint s\<bar> 32635 + 132 < (17 + int m) * 2 ^ (e + 3)" "2 ^ (e + 7) \<le> min \<bar>sint s\<bar> 32635 + 132"
    by (rule ulaw_encode_segment [of s])
  define h :: int where "h = 2 ^ (e + 2)"
  define c where "c = (16 + int m) * 2 ^ (e + 3)"
  have h: "2 ^ (e + 3) = 2 * h" "2 ^ (e + 7) = 32 * h" by (simp_all add: h_def power_add)
  have "c \<le> min \<bar>sint s\<bar> 32635 + 132" "min \<bar>sint s\<bar> 32635 + 132 < c + 2 * h"
    "32 * h \<le> min \<bar>sint s\<bar> 32635 + 132"
    using e(4-6) h by (simp_all add: c_def algebra_simps)
  moreover have "h \<le> 512" using e(1) power_increasing [of "e + 2" 9 "2 :: int"] by (simp add: h_def)
  ultimately have "32 * \<bar>(c + h - 132) - \<bar>sint s\<bar>\<bar> \<le> \<bar>sint s\<bar> + 132"
    using sint_i16 [of s] by (auto simp: min_def abs_if split: if_splits)
  then show ?thesis
    unfolding e(3) ulaw_decode_segment [OF e(1,2)] c_def h_def by (auto simp: abs_if split: if_splits)
qed

section \<open>A-law\<close>

text \<open>The segment search finds the first bound that is not exceeded.\<close>

lemma alaw_segment:
  assumes "0 \<le> p" "p < 4096"
  shows "position (\<lambda>seg_end. p \<le> seg_end) ALAW_SEG_END = Some 0 \<and> p < 32
    \<or> (\<exists>e. 1 \<le> e \<and> e < 8 \<and> position (\<lambda>seg_end. p \<le> seg_end) ALAW_SEG_END = Some e
         \<and> 2 ^ (e + 4) \<le> p \<and> p < 2 ^ Suc (e + 4))"
proof (cases "p < 32")
  case True
  then show ?thesis by (simp add: ALAW_SEG_END_def)
next
  case False
  then consider "32 \<le> p" "p < 64" | "64 \<le> p" "p < 128" | "128 \<le> p" "p < 256" | "256 \<le> p" "p < 512"
    | "512 \<le> p" "p < 1024" | "1024 \<le> p" "p < 2048" | "2048 \<le> p" "p < 4096" using assms(2) by linarith
  then have "\<exists>e. 1 \<le> e \<and> e < 8 \<and> position (\<lambda>seg_end. p \<le> seg_end) ALAW_SEG_END = Some e
         \<and> 2 ^ (e + 4) \<le> p \<and> p < 2 ^ Suc (e + 4)"
  proof cases
    case 1 then show ?thesis by (intro exI [of _ 1]) (simp add: ALAW_SEG_END_def)
  next
    case 2 then show ?thesis by (intro exI [of _ 2]) (simp add: ALAW_SEG_END_def)
  next
    case 3 then show ?thesis by (intro exI [of _ 3]) (simp add: ALAW_SEG_END_def)
  next
    case 4 then show ?thesis by (intro exI [of _ 4]) (simp add: ALAW_SEG_END_def)
  next
    case 5 then show ?thesis by (intro exI [of _ 5]) (simp add: ALAW_SEG_END_def)
  next
    case 6 then show ?thesis by (intro exI [of _ 6]) (simp add: ALAW_SEG_END_def)
  next
    case 7 then show ?thesis by (intro exI [of _ 7]) (simp add: ALAW_SEG_END_def)
  qed
  then show ?thesis by blast
qed

text \<open>
  The encoder in terms of the magnitude \<open>v\<close> (the sample, or its complement when negative): segment
  \<open>e\<close> and mantissa \<open>m\<close> locate \<open>v\<close> in an interval of width \<open>2 ^ (e + 3)\<close>, or 16 in segment 0.
\<close>

lemma alaw_encode_segment:
  fixes s :: i16
  defines "v \<equiv> (if sint s < 0 then - sint s - 1 else sint s)"
  obtains e m where "e < 8" "m < 16"
    "alaw_encode s = (push_bit 4 (of_nat e) OR of_nat m) XOR (if sint s < 0 then 0x55 else 0xD5)"
    "e = 0 \<longrightarrow> int m * 16 \<le> v \<and> v < int m * 16 + 16"
    "0 < e \<longrightarrow> (16 + int m) * 2 ^ (e + 3) \<le> v \<and> v < (17 + int m) * 2 ^ (e + 3)"
proof -
  define p where "p = v div 8"
  have v: "0 \<le> v" "v < 32768" using sint_i16 [of s] by (simp_all add: v_def)
  have neg: "- (sint s div 8) - 1 = (- sint s - 1) div 8" by presburger
  have "(if 0 \<le> drop_bit 3 (sint s) then (drop_bit 3 (sint s), 0xD5) else (- drop_bit 3 (sint s) - 1, ALAW_MASK))
      = (p, if sint s < 0 then 0x55 else 0xD5 :: u8)"
    using neg by (auto simp: p_def v_def drop_bit_eq_div ALAW_MASK_def pos_imp_zdiv_nonneg_iff)
  then have enc: "alaw_encode s = (case position (\<lambda>seg_end. p \<le> seg_end) ALAW_SEG_END of
      None \<Rightarrow> 0x7F XOR (if sint s < 0 then 0x55 else 0xD5)
    | Some seg \<Rightarrow> (push_bit 4 (of_nat seg) OR of_int (drop_bit (if seg < 2 then 1 else seg) p AND 0x0F))
        XOR (if sint s < 0 then 0x55 else 0xD5))"
    unfolding alaw_encode_def Let_def by simp
  have "0 \<le> p" "p < 4096" using v by (auto simp: p_def)
  from alaw_segment [OF this] show ?thesis
  proof (elim disjE exE conjE)
    assume pos: "position (\<lambda>seg_end. p \<le> seg_end) ALAW_SEG_END = Some 0" and "p < 32"
    have m: "drop_bit 1 p AND 0x0F = p div 2"
    proof -
      have "drop_bit 1 p AND 0x0F = take_bit 4 (p div 2)"
        by (simp add: take_bit_eq_mask mask_eq_exp_minus_1 drop_bit_eq_div)
      then show ?thesis using \<open>0 \<le> p\<close> \<open>p < 32\<close> by (simp add: take_bit_eq_mod)
    qed
    show ?thesis
      by (rule that [of 0 "nat (p div 2)"]) (use pos m v \<open>0 \<le> p\<close> \<open>p < 32\<close> in \<open>auto simp: enc p_def\<close>)
  next
    fix e assume e: "1 \<le> e" "e < 8" "2 ^ (e + 4) \<le> p" "p < 2 ^ Suc (e + 4)"
      and pos: "position (\<lambda>seg_end. p \<le> seg_end) ALAW_SEG_END = Some e"
    obtain m where m: "m < 16" "drop_bit e p AND 0x0F = int m"
      "(16 + int m) * 2 ^ e \<le> p" "p < (17 + int m) * 2 ^ e" using e by (auto intro: mantissa_bits)
    have sh: "(if e < 2 then 1 else e) = e" using e(1) by auto
    have "(16 + int m) * 2 ^ (e + 3) \<le> v \<and> v < (17 + int m) * 2 ^ (e + 3)"
      using m(3,4) unfolding p_def by (simp add: power_add) linarith
    then show ?thesis
      by (intro that [of e m]) (use e m pos in \<open>auto simp: enc sh\<close>)
  qed
qed

lemma alaw_decode_segment:
  assumes "e < 8" "m < 16"
  shows "sint (alaw_decode ((push_bit 4 (of_nat e) OR of_nat m) XOR (if neg then 0x55 else 0xD5)))
    = (if neg then - 1 else 1) * (if e = 0 then int m * 16 + 8 else (16 + int m) * 2 ^ (e + 3) + 2 ^ (e + 2))"
  using alaw_decode_table [unfolded list_all_iff Let_def, THEN bspec, of e, THEN bspec, of m] assms
  by (cases neg) simp_all

lemma alaw_error: "32 * \<bar>sint (alaw_decode (alaw_encode s)) - sint s\<bar> \<le> max \<bar>sint s\<bar> 256"
proof -
  obtain e m where e: "e < 8" "m < 16"
    "alaw_encode s = (push_bit 4 (of_nat e) OR of_nat m) XOR (if sint s < 0 then 0x55 else 0xD5)"
    and seg0: "e = 0 \<longrightarrow> int m * 16 \<le> (if sint s < 0 then - sint s - 1 else sint s) \<and>
        (if sint s < 0 then - sint s - 1 else sint s) < int m * 16 + 16"
    and seg: "0 < e \<longrightarrow> (16 + int m) * 2 ^ (e + 3) \<le> (if sint s < 0 then - sint s - 1 else sint s) \<and>
        (if sint s < 0 then - sint s - 1 else sint s) < (17 + int m) * 2 ^ (e + 3)"
    by (rule alaw_encode_segment [of s])
  show ?thesis
  proof (cases "e = 0")
    case True
    with seg0 show ?thesis
      unfolding e(3) alaw_decode_segment [OF e(1,2)] by (auto simp: abs_if max_def split: if_splits)
  next
    case False
    define h :: int where "h = 2 ^ (e + 2)"
    define c where "c = (16 + int m) * 2 ^ (e + 3)"
    have h: "2 ^ (e + 3) = 2 * h" "h > 0" by (simp_all add: h_def power_add)
    have "32 * h \<le> c" by (simp add: c_def h)
    moreover have "c \<le> (if sint s < 0 then - sint s - 1 else sint s)"
      "(if sint s < 0 then - sint s - 1 else sint s) < c + 2 * h"
      using seg False h by (simp_all add: c_def algebra_simps split: if_splits)
    ultimately have "32 * \<bar>(if sint s < 0 then - 1 else 1) * (c + h) - sint s\<bar> \<le> max \<bar>sint s\<bar> 256"
      using h(2) by (auto simp: abs_if max_def split: if_splits)
    then show ?thesis
      unfolding e(3) alaw_decode_segment [OF e(1,2)] c_def h_def using False by simp
  qed
qed

section \<open>Properties\<close>

text \<open>
  C17: companding error. For every 16-bit sample, encoding and decoding changes a \<open>\<mu>\<close>-law sample by
  at most a thirty-second of its magnitude plus 132, clipped samples included, and an A-law sample by
  at most a thirty-second of its magnitude or 8, whichever is larger.
\<close>

theorem g711_error:
  "32 * \<bar>sint (decode_sample Mu (encode_sample Mu s)) - sint s\<bar> \<le> \<bar>sint s\<bar> + 132
   \<and> 32 * \<bar>sint (decode_sample ALaw (encode_sample ALaw s)) - sint s\<bar> \<le> max \<bar>sint s\<bar> 256"
  by (simp add: ulaw_error alaw_error)

text \<open>
  C18: transcoding is stable. Decoding a buffer of G.711 bytes and encoding it again gives the same
  bytes in either law, with the one exception that the two \<open>\<mu>\<close>-law codes of zero are merged
  into \<open>0xFF\<close>; so repeated transcoding loses nothing more.
\<close>

theorem g711_stable:
  "law_encode l (law_decode l data []) [] = map (\<lambda>b. if l = Mu \<and> b = 0x7F then 0xFF else b) data"
proof -
  have "encode_sample l (decode_sample l b) = (if l = Mu \<and> b = 0x7F then 0xFF else b)" for b
  proof -
    have "unat b < 2 ^ LENGTH(8)" by (rule unsigned_less)
    then have "unat b \<in> set [0..<256]" by simp
    with codepoint_table have "ulaw_encode (ulaw_decode (of_nat (unat b))) = (if unat b = 0x7F then 0xFF else of_nat (unat b))
        \<and> alaw_encode (alaw_decode (of_nat (unat b))) = of_nat (unat b)"
      unfolding list_all_iff by blast
    moreover have "unat b = 0x7F \<longleftrightarrow> b = 0x7F" by (simp add: word_unat_eq_iff)
    ultimately show ?thesis by (cases l) auto
  qed
  then show ?thesis by (simp add: law_encode_def law_decode_def)
qed

end
