(* ===== verification/Net_Addr.thy ===== *)
theory Net_Addr
  imports Prelude
begin

text \<open>
  IP and socket addresses as the sources use them (\<^verbatim>\<open>std::net\<close>), and the canonical form of
  \<^verbatim>\<open>aurix-common/src/addr.rs\<close>. The flow information and scope id of an IPv6 socket address are not
  modelled: \<^verbatim>\<open>SocketAddr::new\<close>, which builds every address the code stores, sets them to 0.
\<close>

unbundle bit_operations_syntax

datatype ip_addr = V4 u32 | V6 u128

record socket_addr =
  sa_ip :: ip_addr
  sa_port :: u16

definition socket_new :: "ip_addr \<Rightarrow> u16 \<Rightarrow> socket_addr" where
  "socket_new ip port = \<lparr> sa_ip = ip, sa_port = port \<rparr>"

fun octets :: "ip_addr \<Rightarrow> bytes" where
  "octets (V4 a) = to_be 4 a"
| "octets (V6 a) = to_be 16 a"

fun is_ipv4 :: "ip_addr \<Rightarrow> bool" where
  "is_ipv4 (V4 _) = True"
| "is_ipv4 (V6 _) = False"

fun is_unspecified :: "ip_addr \<Rightarrow> bool" where
  "is_unspecified (V4 a) = (a = 0)"
| "is_unspecified (V6 a) = (a = 0)"

fun is_loopback :: "ip_addr \<Rightarrow> bool" where
  "is_loopback (V4 a) = (drop_bit 24 a = 127)"
| "is_loopback (V6 a) = (a = 1)"

definition to_ipv4_mapped :: "u128 \<Rightarrow> u32 option" where
  "to_ipv4_mapped a = (if drop_bit 32 a = 0xFFFF then Some (ucast a) else None)"

definition to_ipv6_mapped :: "u32 \<Rightarrow> u128" where
  "to_ipv6_mapped a = push_bit 32 0xFFFF OR ucast a"

fun canonical_ip :: "ip_addr \<Rightarrow> ip_addr" where
  "canonical_ip (V6 v6) = (case to_ipv4_mapped v6 of Some v4 \<Rightarrow> V4 v4 | None \<Rightarrow> V6 v6)"
| "canonical_ip (V4 v4) = V4 v4"

definition canonical :: "socket_addr \<Rightarrow> socket_addr" where
  "canonical addr = socket_new (canonical_ip (sa_ip addr)) (sa_port addr)"

definition wire_addr :: "socket_addr \<Rightarrow> bool \<Rightarrow> socket_addr" where
  "wire_addr addr socket_is_v6 =
     (case sa_ip addr of
        V4 v4 \<Rightarrow> if socket_is_v6 then socket_new (V6 (to_ipv6_mapped v4)) (sa_port addr) else addr
      | _ \<Rightarrow> addr)"

lemma socket_new_sel [simp]: "sa_ip (socket_new ip port) = ip" "sa_port (socket_new ip port) = port"
  by (simp_all add: socket_new_def)

lemma socket_new_collapse [simp]: "socket_new (sa_ip a) (sa_port a) = a"
  by (simp add: socket_new_def)

lemma low_bits_or: "ucast (push_bit 32 x OR ucast a :: u128) = (a :: u32)"
  by (rule bit_word_eqI) (auto simp: bit_simps)

lemma mapped_roundtrip: "to_ipv4_mapped (to_ipv6_mapped a) = Some a"
proof -
  have "drop_bit 32 (push_bit 32 0xFFFF OR ucast a :: u128) = 0xFFFF"
    by (rule bit_word_eqI) (auto simp: bit_simps dest: bit_imp_le_length)
  with low_bits_or [of "0xFFFF" a] show ?thesis by (simp add: to_ipv4_mapped_def to_ipv6_mapped_def)
qed

lemma canonical_idem: "canonical (canonical a) = canonical a"
  by (cases "sa_ip a") (auto simp: canonical_def split: option.splits)


end
