(* ===== verification/Rust_Std.thy ===== *)
theory Rust_Std
  imports Prelude
begin

text \<open>
  The parts of Rust's standard library that the TURN server uses on strings, which are modelled by
  their UTF-8 bytes: \<^verbatim>\<open>String::from_utf8\<close>, \<^verbatim>\<open>str::split_once\<close>, \<^verbatim>\<open>i64::from_str_radix\<close> and the
  \<^verbatim>\<open>{}\<close> and \<^verbatim>\<open>{:x}\<close> formatting of an \<^verbatim>\<open>i64\<close>, with the round trips between formatting and parsing.
\<close>

section \<open>UTF-8\<close>

definition cont_byte :: "u8 \<Rightarrow> bool" where
  "cont_byte b \<longleftrightarrow> 0x80 \<le> b \<and> b \<le> 0xBF"

definition seq2 :: "u8 \<Rightarrow> u8 \<Rightarrow> bool" where
  "seq2 b c1 \<longleftrightarrow> 0xC2 \<le> b \<and> b \<le> 0xDF \<and> cont_byte c1"

definition seq3 :: "u8 \<Rightarrow> u8 \<Rightarrow> u8 \<Rightarrow> bool" where
  "seq3 b c1 c2 \<longleftrightarrow> 0xE0 \<le> b \<and> b \<le> 0xEF
     \<and> (if b = 0xE0 then 0xA0 \<le> c1 \<and> c1 \<le> 0xBF
        else if b = 0xED then 0x80 \<le> c1 \<and> c1 \<le> 0x9F
        else cont_byte c1)
     \<and> cont_byte c2"

definition seq4 :: "u8 \<Rightarrow> u8 \<Rightarrow> u8 \<Rightarrow> u8 \<Rightarrow> bool" where
  "seq4 b c1 c2 c3 \<longleftrightarrow> 0xF0 \<le> b \<and> b \<le> 0xF4
     \<and> (if b = 0xF0 then 0x90 \<le> c1 \<and> c1 \<le> 0xBF
        else if b = 0xF4 then 0x80 \<le> c1 \<and> c1 \<le> 0x8F
        else cont_byte c1)
     \<and> cont_byte c2 \<and> cont_byte c3"

text \<open>The number of bytes of the character at the head, or 0 when they are not a valid encoding.\<close>

definition utf8_width :: "bytes \<Rightarrow> nat" where
  "utf8_width s =
     (case s of [] \<Rightarrow> 0
      | b # r \<Rightarrow> if b < 0x80 then 1 else (case r of [] \<Rightarrow> 0
      | c1 # r \<Rightarrow> if seq2 b c1 then 2 else (case r of [] \<Rightarrow> 0
      | c2 # r \<Rightarrow> if seq3 b c1 c2 then 3 else (case r of [] \<Rightarrow> 0
      | c3 # r \<Rightarrow> if seq4 b c1 c2 c3 then 4 else 0))))"

function utf8_valid :: "bytes \<Rightarrow> bool" where
  "utf8_valid s =
     (if s = [] then True else if utf8_width s = 0 then False else utf8_valid (drop (utf8_width s) s))"
  by pat_completeness auto
termination by (relation "measure length") auto

declare utf8_valid.simps [simp del]

lemma utf8_width_append:
  "utf8_width s > 0 \<Longrightarrow> utf8_width s \<le> length s \<and> utf8_width (s @ t) = utf8_width s"
proof (cases s)
  case (Cons b r1)
  assume w: "utf8_width s > 0"
  show ?thesis
  proof (cases "b < 0x80 \<or> r1 = []")
    case True
    then show ?thesis using w by (auto simp: Cons utf8_width_def)
  next
    case False
    then obtain c1 r2 where r1: "r1 = c1 # r2" by (cases r1) auto
    show ?thesis
    proof (cases "seq2 b c1 \<or> r2 = []")
      case True
      then show ?thesis using w False by (auto simp: Cons r1 utf8_width_def)
    next
      case F2: False
      then obtain c2 r3 where r2: "r2 = c2 # r3" by (cases r2) auto
      show ?thesis
      proof (cases "seq3 b c1 c2 \<or> r3 = []")
        case True
        then show ?thesis using w False F2 by (auto simp: Cons r1 r2 utf8_width_def)
      next
        case F3: False
        then obtain c3 r4 where "r3 = c3 # r4" by (cases r3) auto
        then show ?thesis using w False F2 F3 by (simp add: Cons r1 r2 utf8_width_def split: if_splits)
      qed
    qed
  qed
qed (simp add: utf8_width_def)

lemma utf8_valid_append: "utf8_valid a \<Longrightarrow> utf8_valid b \<Longrightarrow> utf8_valid (a @ b)"
proof (induction a rule: utf8_valid.induct)
  case (1 s)
  show ?case
  proof (cases "s = []")
    case False
    with "1.prems"(1) have w: "utf8_width s \<noteq> 0" and v: "utf8_valid (drop (utf8_width s) s)"
      by (auto simp: utf8_valid.simps [of s] split: if_splits)
    from utf8_width_append [of s b] "1.IH" [OF False w v "1.prems"(2)] w show ?thesis
      by (subst utf8_valid.simps) simp
  qed (use "1.prems" in simp)
qed

lemma utf8_valid_ascii: "\<forall>b \<in> set s. b < 0x80 \<Longrightarrow> utf8_valid s"
proof (induction s)
  case (Cons b s)
  then show ?case by (subst utf8_valid.simps) (simp add: utf8_width_def)
qed (simp add: utf8_valid.simps)

section \<open>Splitting\<close>

definition split_once :: "u8 \<Rightarrow> bytes \<Rightarrow> (bytes \<times> bytes) option" where
  "split_once c s =
     (if c \<in> set s then Some (takeWhile (\<lambda>x. x \<noteq> c) s, tl (dropWhile (\<lambda>x. x \<noteq> c) s)) else None)"

lemma split_once_append: "c \<notin> set a \<Longrightarrow> split_once c (a @ c # b) = Some (a, b)"
proof -
  assume "c \<notin> set a"
  then have "takeWhile (\<lambda>x. x \<noteq> c) (a @ c # b) = a" "dropWhile (\<lambda>x. x \<noteq> c) (a @ c # b) = c # b"
    by (induction a) auto
  then show ?thesis by (simp add: split_once_def)
qed

lemma split_once_Some: "split_once c s = Some (a, b) \<Longrightarrow> s = a @ c # b \<and> c \<notin> set a"
proof -
  assume "split_once c s = Some (a, b)"
  then have c: "c \<in> set s" and a: "a = takeWhile (\<lambda>x. x \<noteq> c) s" and b: "b = tl (dropWhile (\<lambda>x. x \<noteq> c) s)"
    by (auto simp: split_once_def split: if_splits)
  from c have ne: "dropWhile (\<lambda>x. x \<noteq> c) s \<noteq> []" by (auto simp: dropWhile_eq_Nil_conv)
  with hd_dropWhile [OF ne] have "dropWhile (\<lambda>x. x \<noteq> c) s = c # b"
    unfolding b by (metis list.collapse)
  then have "s = a @ c # b" using takeWhile_dropWhile_id [of "\<lambda>x. x \<noteq> c" s] by (simp add: a)
  moreover have "c \<notin> set a" by (auto simp: a dest: set_takeWhileD)
  ultimately show ?thesis by blast
qed

section \<open>Integers in text\<close>

definition digit_char :: "nat \<Rightarrow> u8" where
  "digit_char d = (if d < 10 then of_nat (48 + d) else of_nat (87 + d))"

definition digit_val :: "nat \<Rightarrow> u8 \<Rightarrow> nat option" where
  "digit_val radix b =
     (let v = (if 48 \<le> b \<and> b \<le> 57 then Some (unat b - 48)
               else if 97 \<le> b \<and> b \<le> 122 then Some (unat b - 87)
               else if 65 \<le> b \<and> b \<le> 90 then Some (unat b - 55)
               else None)
      in case v of Some d \<Rightarrow> if d < radix then Some d else None | None \<Rightarrow> None)"

fun parse_digits :: "nat \<Rightarrow> nat \<Rightarrow> bytes \<Rightarrow> nat option" where
  "parse_digits radix acc [] = Some acc"
| "parse_digits radix acc (b # bs) =
     (case digit_val radix b of None \<Rightarrow> None | Some d \<Rightarrow> parse_digits radix (acc * radix + d) bs)"

definition i64_ok :: "int \<Rightarrow> bool" where
  "i64_ok n \<longleftrightarrow> - (2 ^ 63) \<le> n \<and> n < 2 ^ 63"

text \<open>An optional sign, at least one digit, and a value that fits; anything else is an error.\<close>

definition from_str_radix :: "nat \<Rightarrow> bytes \<Rightarrow> int option" where
  "from_str_radix radix s =
     (let (neg, digits) = (case s of b # bs \<Rightarrow> if b = 45 then (True, bs) else if b = 43 then (False, bs) else (False, s)
                           | [] \<Rightarrow> (False, []))
      in if digits = [] then None
         else case parse_digits radix 0 digits of
           None \<Rightarrow> None
         | Some n \<Rightarrow> (let v = (if neg then - int n else int n) in if i64_ok v then Some v else None))"

function print_digits :: "nat \<Rightarrow> nat \<Rightarrow> bytes" where
  "print_digits radix n =
     (if n < radix \<or> radix < 2 then [digit_char n]
      else print_digits radix (n div radix) @ [digit_char (n mod radix)])"
  by pat_completeness auto
termination by (relation "measure snd") (auto simp: div_less_dividend)

declare print_digits.simps [simp del]

definition i64_to_string :: "int \<Rightarrow> bytes" where
  "i64_to_string n = (if n < 0 then 45 # print_digits 10 (nat (- n)) else print_digits 10 (nat n))"

text \<open>\<^verbatim>\<open>{:x}\<close> prints the 64-bit pattern.\<close>

definition i64_to_hex :: "int \<Rightarrow> bytes" where
  "i64_to_hex n = print_digits 16 (unat (of_int n :: u64))"

lemma digit_char_table:
  "list_all (\<lambda>d. digit_val 16 (digit_char d) = Some d \<and> 48 \<le> digit_char d \<and> digit_char d < 0x80) [0..<16]"
  by code_simp

lemma digit_char_16: "d < 16 \<Longrightarrow> digit_val 16 (digit_char d) = Some d \<and> 48 \<le> digit_char d \<and> digit_char d < 0x80"
  using digit_char_table by (simp add: list_all_iff)

lemma digit_val_char: "d < radix \<Longrightarrow> radix \<le> 16 \<Longrightarrow> digit_val radix (digit_char d) = Some d"
  using digit_char_16 [of d] by (auto simp: digit_val_def Let_def split: option.splits if_splits)

lemma parse_digits_append:
  "parse_digits radix acc (a @ b) = (case parse_digits radix acc a of None \<Rightarrow> None | Some n \<Rightarrow> parse_digits radix n b)"
  by (induction radix acc a rule: parse_digits.induct) (auto split: option.splits)

lemma parse_print_digits:
  assumes "2 \<le> radix" "radix \<le> 16"
  shows "parse_digits radix 0 (print_digits radix n) = Some n"
proof (induction n rule: less_induct)
  case (less n)
  show ?case
  proof (cases "n < radix")
    case True
    with assms show ?thesis by (simp add: print_digits.simps [of radix n] digit_val_char)
  next
    case False
    then have "n div radix < n" using assms by (simp add: div_less_dividend)
    with less False assms show ?thesis
      by (simp add: print_digits.simps [of radix n] parse_digits_append digit_val_char)
  qed
qed

lemma print_digits_chars:
  assumes "2 \<le> radix" "radix \<le> 16"
  shows "print_digits radix n \<noteq> [] \<and> (\<forall>b \<in> set (print_digits radix n). 48 \<le> b \<and> b < 0x80)"
proof (induction n rule: less_induct)
  case (less n)
  show ?case
  proof (cases "n < radix")
    case True
    with assms digit_char_16 [of n] show ?thesis by (simp add: print_digits.simps [of radix n])
  next
    case False
    then have "n div radix < n" using assms by (simp add: div_less_dividend)
    moreover have "n mod radix < 16" using assms mod_less_divisor [of radix n] by linarith
    ultimately show ?thesis
      using less [of "n div radix"] False assms digit_char_16 [of "n mod radix"] by (auto simp: print_digits.simps [of radix n])
  qed
qed

text \<open>No sign is printed for a natural number, so parsing reads all digits back.\<close>

lemma from_print_digits:
  assumes "2 \<le> radix" "radix \<le> 16" "int n < 2 ^ 63"
  shows "from_str_radix radix (print_digits radix n) = Some (int n)"
proof -
  obtain b bs where p: "print_digits radix n = b # bs" and b: "48 \<le> b"
    using print_digits_chars [OF assms(1,2), of n] by (cases "print_digits radix n") auto
  have "b \<noteq> 45" "b \<noteq> 43" using b by auto
  with assms(3) parse_print_digits [OF assms(1,2), of n] p show ?thesis
    by (simp add: from_str_radix_def i64_ok_def)
qed

lemma parse_digits_chars: "parse_digits radix acc s = Some n \<Longrightarrow> b \<in> set s \<Longrightarrow> digit_val radix b \<noteq> None"
  by (induction radix acc s rule: parse_digits.induct) (auto split: option.splits)

lemma decimal_no_colon: "0 \<le> n \<Longrightarrow> 58 \<notin> set (i64_to_string n)"
  using parse_digits_chars [OF parse_print_digits [of 10 "nat n"], of 58]
  by (auto simp: i64_to_string_def digit_val_def)

lemma i64_string_roundtrip: "0 \<le> n \<Longrightarrow> i64_ok n \<Longrightarrow> from_str_radix 10 (i64_to_string n) = Some n"
  by (simp add: i64_to_string_def from_print_digits i64_ok_def)

lemma i64_hex_roundtrip: "0 \<le> n \<Longrightarrow> i64_ok n \<Longrightarrow> from_str_radix 16 (i64_to_hex n) = Some n"
proof -
  assume n: "0 \<le> n" "i64_ok n"
  then have "int (unat (of_int n :: u64)) = n" by (simp add: i64_ok_def unsigned_of_int take_bit_int_eq_self)
  with n show ?thesis by (simp add: i64_to_hex_def from_print_digits i64_ok_def)
qed

end
