(* ===== verification/Stun.thy ===== *)
theory Stun
  imports Media_Keys Net_Addr Rust_Std
begin

text \<open>
  STUN messages as the TURN server reads and writes them, \<^verbatim>\<open>aurix-turn/src/stun.rs\<close>: types, attributes,
  XOR addresses, encoding with MESSAGE-INTEGRITY and FINGERPRINT trailers, verification and decoding.
  HMAC-SHA1 (\<open>S\<close>) and the CRC (\<open>crc\<close>) are parameters.

  The lemmas show that what is encoded decodes and verifies, that addresses round trip, and which
  bytes of an accepted message the integrity check covers.
\<close>

unbundle bit_operations_syntax

section \<open>Message and attribute types\<close>

definition STUN_MAGIC_COOKIE :: u32 where "STUN_MAGIC_COOKIE = 0x2112A442"
definition STUN_HEADER_SIZE :: nat where "STUN_HEADER_SIZE = 20"
definition STUN_FINGERPRINT_XOR :: u32 where "STUN_FINGERPRINT_XOR = 0x5354554E"

datatype stun_message_type =
    BindingRequest | BindingResponse | BindingErrorResponse
  | AllocateRequest | AllocateResponse | AllocateErrorResponse
  | RefreshRequest | RefreshResponse
  | SendIndication | DataIndication
  | CreatePermissionRequest | CreatePermissionResponse
  | ChannelBindRequest | ChannelBindResponse
  | RefreshErrorResponse | CreatePermissionErrorResponse | ChannelBindErrorResponse

fun msg_to_u16 :: "stun_message_type \<Rightarrow> u16" where
  "msg_to_u16 BindingRequest = 0x0001"
| "msg_to_u16 BindingResponse = 0x0101"
| "msg_to_u16 BindingErrorResponse = 0x0111"
| "msg_to_u16 AllocateRequest = 0x0003"
| "msg_to_u16 AllocateResponse = 0x0103"
| "msg_to_u16 AllocateErrorResponse = 0x0113"
| "msg_to_u16 RefreshRequest = 0x0004"
| "msg_to_u16 RefreshResponse = 0x0104"
| "msg_to_u16 SendIndication = 0x0016"
| "msg_to_u16 DataIndication = 0x0017"
| "msg_to_u16 CreatePermissionRequest = 0x0008"
| "msg_to_u16 CreatePermissionResponse = 0x0108"
| "msg_to_u16 ChannelBindRequest = 0x0009"
| "msg_to_u16 ChannelBindResponse = 0x0109"
| "msg_to_u16 RefreshErrorResponse = 0x0114"
| "msg_to_u16 CreatePermissionErrorResponse = 0x0118"
| "msg_to_u16 ChannelBindErrorResponse = 0x0119"

fun error_response :: "stun_message_type \<Rightarrow> stun_message_type" where
  "error_response BindingRequest = BindingErrorResponse"
| "error_response AllocateRequest = AllocateErrorResponse"
| "error_response RefreshRequest = RefreshErrorResponse"
| "error_response CreatePermissionRequest = CreatePermissionErrorResponse"
| "error_response ChannelBindRequest = ChannelBindErrorResponse"
| "error_response other = other"

fun success_response :: "stun_message_type \<Rightarrow> stun_message_type" where
  "success_response BindingRequest = BindingResponse"
| "success_response AllocateRequest = AllocateResponse"
| "success_response RefreshRequest = RefreshResponse"
| "success_response CreatePermissionRequest = CreatePermissionResponse"
| "success_response ChannelBindRequest = ChannelBindResponse"
| "success_response other = other"

definition msg_from_u16 :: "u16 \<Rightarrow> stun_message_type option" where
  "msg_from_u16 v =
     (if v = 0x0001 then Some BindingRequest
      else if v = 0x0101 then Some BindingResponse
      else if v = 0x0111 then Some BindingErrorResponse
      else if v = 0x0003 then Some AllocateRequest
      else if v = 0x0103 then Some AllocateResponse
      else if v = 0x0113 then Some AllocateErrorResponse
      else if v = 0x0004 then Some RefreshRequest
      else if v = 0x0104 then Some RefreshResponse
      else if v = 0x0016 then Some SendIndication
      else if v = 0x0017 then Some DataIndication
      else if v = 0x0008 then Some CreatePermissionRequest
      else if v = 0x0108 then Some CreatePermissionResponse
      else if v = 0x0009 then Some ChannelBindRequest
      else if v = 0x0109 then Some ChannelBindResponse
      else if v = 0x0114 then Some RefreshErrorResponse
      else if v = 0x0118 then Some CreatePermissionErrorResponse
      else if v = 0x0119 then Some ChannelBindErrorResponse
      else None)"

definition is_request :: "stun_message_type \<Rightarrow> bool" where
  "is_request t \<longleftrightarrow> t \<in> {BindingRequest, AllocateRequest, RefreshRequest, CreatePermissionRequest,
     ChannelBindRequest}"

datatype stun_attribute_type =
    MappedAddress | Username | MessageIntegrity | ErrorCode | UnknownAttributes | Realm | Nonce
  | XorMappedAddress | Software | Fingerprint
  | ChannelNumber | Lifetime | XorPeerAddress | Data | XorRelayedAddress | RequestedTransport
  | DontFragment | ReservationToken | EvenPort | RequestedAddressFamily

fun attr_to_u16 :: "stun_attribute_type \<Rightarrow> u16" where
  "attr_to_u16 MappedAddress = 0x0001"
| "attr_to_u16 Username = 0x0006"
| "attr_to_u16 MessageIntegrity = 0x0008"
| "attr_to_u16 ErrorCode = 0x0009"
| "attr_to_u16 UnknownAttributes = 0x000A"
| "attr_to_u16 Realm = 0x0014"
| "attr_to_u16 Nonce = 0x0015"
| "attr_to_u16 XorMappedAddress = 0x0020"
| "attr_to_u16 Software = 0x8022"
| "attr_to_u16 Fingerprint = 0x8028"
| "attr_to_u16 ChannelNumber = 0x000C"
| "attr_to_u16 Lifetime = 0x000D"
| "attr_to_u16 XorPeerAddress = 0x0012"
| "attr_to_u16 Data = 0x0013"
| "attr_to_u16 XorRelayedAddress = 0x0016"
| "attr_to_u16 RequestedTransport = 0x0019"
| "attr_to_u16 DontFragment = 0x001A"
| "attr_to_u16 ReservationToken = 0x0022"
| "attr_to_u16 EvenPort = 0x0018"
| "attr_to_u16 RequestedAddressFamily = 0x0017"

definition attr_from_u16 :: "u16 \<Rightarrow> stun_attribute_type option" where
  "attr_from_u16 v =
     (if v = 0x0001 then Some MappedAddress
      else if v = 0x0006 then Some Username
      else if v = 0x0008 then Some MessageIntegrity
      else if v = 0x0009 then Some ErrorCode
      else if v = 0x000A then Some UnknownAttributes
      else if v = 0x0014 then Some Realm
      else if v = 0x0015 then Some Nonce
      else if v = 0x0020 then Some XorMappedAddress
      else if v = 0x8022 then Some Software
      else if v = 0x8028 then Some Fingerprint
      else if v = 0x000C then Some ChannelNumber
      else if v = 0x000D then Some Lifetime
      else if v = 0x0012 then Some XorPeerAddress
      else if v = 0x0013 then Some Data
      else if v = 0x0016 then Some XorRelayedAddress
      else if v = 0x0019 then Some RequestedTransport
      else if v = 0x001A then Some DontFragment
      else if v = 0x0022 then Some ReservationToken
      else if v = 0x0018 then Some EvenPort
      else if v = 0x0017 then Some RequestedAddressFamily
      else None)"

section \<open>Messages\<close>

record stun_attribute =
  attr_type :: u16
  attr_value :: bytes

record stun_message =
  msg_type :: stun_message_type
  transaction_id :: bytes
  attributes :: "stun_attribute list"

definition stun_new :: "stun_message_type \<Rightarrow> bytes \<Rightarrow> stun_message" where
  "stun_new t tid = \<lparr> msg_type = t, transaction_id = tid, attributes = [] \<rparr>"

definition add_attribute :: "stun_attribute_type \<Rightarrow> bytes \<Rightarrow> stun_message \<Rightarrow> stun_message" where
  "add_attribute t v m =
     m\<lparr>attributes := attributes m @ [\<lparr> attr_type = attr_to_u16 t, attr_value = v \<rparr>]\<rparr>"

definition get_attribute :: "stun_attribute_type \<Rightarrow> stun_message \<Rightarrow> stun_attribute option" where
  "get_attribute t m = List.find (\<lambda>a. attr_type a = attr_to_u16 t) (attributes m)"

definition cookie_bytes :: bytes where
  "cookie_bytes = to_be 4 STUN_MAGIC_COOKIE"

definition port_mask :: u16 where
  "port_mask = ucast (drop_bit 16 STUN_MAGIC_COOKIE)"

definition encode_xor_address :: "stun_message \<Rightarrow> socket_addr \<Rightarrow> bytes" where
  "encode_xor_address m addr =
     (case sa_ip addr of
        V4 ip \<Rightarrow> [0x00, 0x01] @ to_be 2 (sa_port addr XOR port_mask)
          @ map2 (XOR) (to_be 4 ip) cookie_bytes
      | V6 ip \<Rightarrow> [0x00, 0x02] @ to_be 2 (sa_port addr XOR port_mask)
          @ map2 (XOR) (to_be 16 ip) (cookie_bytes @ transaction_id m))"

definition decode_xor_address :: "stun_message \<Rightarrow> bytes \<Rightarrow> socket_addr option" where
  "decode_xor_address m value =
     (if length value < 8 then None
      else
        (let port = (of_be [value ! 2, value ! 3] :: u16) XOR port_mask
         in if value ! 1 = 0x01 then
              Some (socket_new (V4 (of_be (map2 (XOR) (take 4 (drop 4 value)) cookie_bytes))) port)
            else if value ! 1 = 0x02 \<and> length value \<ge> 20 then
              Some (socket_new
                (V6 (of_be (map2 (XOR) (take 16 (drop 4 value)) (cookie_bytes @ transaction_id m)))) port)
            else None))"

definition add_xor_address :: "stun_attribute_type \<Rightarrow> socket_addr \<Rightarrow> stun_message \<Rightarrow> stun_message" where
  "add_xor_address t addr m = add_attribute t (encode_xor_address m addr) m"

definition add_xor_mapped_address :: "socket_addr \<Rightarrow> stun_message \<Rightarrow> stun_message" where
  "add_xor_mapped_address addr m = add_xor_address XorMappedAddress addr m"

definition get_xor_address :: "stun_attribute_type \<Rightarrow> stun_message \<Rightarrow> socket_addr option" where
  "get_xor_address t m = Option.bind (get_attribute t m) (\<lambda>a. decode_xor_address m (attr_value a))"

definition get_all_xor_addresses :: "stun_attribute_type \<Rightarrow> stun_message \<Rightarrow> socket_addr list" where
  "get_all_xor_addresses t m =
     List.map_filter (\<lambda>a. decode_xor_address m (attr_value a))
       (filter (\<lambda>a. attr_type a = attr_to_u16 t) (attributes m))"

definition get_u32 :: "stun_attribute_type \<Rightarrow> stun_message \<Rightarrow> u32 option" where
  "get_u32 t m = Option.bind (get_attribute t m)
     (\<lambda>a. if 4 \<le> length (attr_value a) then Some (of_be (take 4 (attr_value a))) else None)"

definition get_string :: "stun_attribute_type \<Rightarrow> stun_message \<Rightarrow> bytes option" where
  "get_string t m = Option.bind (get_attribute t m)
     (\<lambda>a. if utf8_valid (attr_value a) then Some (attr_value a) else None)"

definition add_error_code :: "u16 \<Rightarrow> bytes \<Rightarrow> stun_message \<Rightarrow> stun_message" where
  "add_error_code code reason m =
     add_attribute ErrorCode ([0, 0, ucast (code div 100), ucast (code mod 100)] @ reason) m"

definition add_software :: "bytes \<Rightarrow> stun_message \<Rightarrow> stun_message" where
  "add_software name m = add_attribute Software name m"

section \<open>Encoding\<close>

definition attr_padding :: "nat \<Rightarrow> nat" where
  "attr_padding len = (4 - len mod 4) mod 4"

definition encode_attribute :: "stun_attribute \<Rightarrow> bytes" where
  "encode_attribute a =
     to_be 2 (attr_type a) @ to_be 2 (of_nat (length (attr_value a)) :: u16)
     @ attr_value a @ replicate (attr_padding (length (attr_value a))) 0"

definition is_trailer :: "stun_attribute \<Rightarrow> bool" where
  "is_trailer a \<longleftrightarrow> attr_type a \<in> {attr_to_u16 MessageIntegrity, attr_to_u16 Fingerprint}"

definition encode_base :: "stun_message \<Rightarrow> bytes" where
  "encode_base m =
     (let attrs = concat (map encode_attribute (filter (\<lambda>a. \<not> is_trailer a) (attributes m)))
      in to_be 2 (msg_to_u16 (msg_type m)) @ to_be 2 (of_nat (length attrs) :: u16)
         @ to_be 4 STUN_MAGIC_COOKIE @ transaction_id m @ attrs)"

definition set_length :: "nat \<Rightarrow> bytes \<Rightarrow> bytes" where
  "set_length len buf =
     (let len = of_nat len :: u16 in buf[2 := ucast (drop_bit 8 len), 3 := ucast len])"

definition append_fingerprint :: "(bytes \<Rightarrow> u32) \<Rightarrow> bytes \<Rightarrow> bytes" where
  "append_fingerprint crc buf =
     (let buf = set_length (length buf - STUN_HEADER_SIZE + 8) buf;
          c = crc buf XOR STUN_FINGERPRINT_XOR
      in buf @ to_be 2 (attr_to_u16 Fingerprint) @ to_be 2 (4 :: u16) @ to_be 4 c)"

definition stun_encode :: "(bytes \<Rightarrow> u32) \<Rightarrow> stun_message \<Rightarrow> bytes" where
  "stun_encode crc m = append_fingerprint crc (encode_base m)"

definition encode_with_integrity :: "mac \<Rightarrow> (bytes \<Rightarrow> u32) \<Rightarrow> bytes \<Rightarrow> stun_message \<Rightarrow> bytes" where
  "encode_with_integrity S crc key m =
     (let buf = encode_base m;
          buf = set_length (length buf - STUN_HEADER_SIZE + 24) buf;
          tag = S key buf
      in append_fingerprint crc
           (buf @ to_be 2 (attr_to_u16 MessageIntegrity) @ to_be 2 (20 :: u16) @ tag))"

section \<open>Verification and decoding\<close>

definition be16_at :: "bytes \<Rightarrow> nat \<Rightarrow> u16" where
  "be16_at data i = of_be [data ! i, data ! (i + 1)]"

text \<open>The loop of \<^verbatim>\<open>find_attribute_offset\<close> from offset \<open>i\<close>.\<close>

function find_from :: "bytes \<Rightarrow> u16 \<Rightarrow> nat \<Rightarrow> nat option" where
  "find_from raw wanted i =
     (if i + 4 \<le> length raw then
        (let al = unat (be16_at raw (i + 2))
         in if be16_at raw i = wanted then Some i
            else find_from raw wanted (i + 4 + al + attr_padding al))
      else None)"
  by pat_completeness auto
termination by (relation "measure (\<lambda>(raw, _, i). length raw - i)") auto

declare find_from.simps [simp del]

definition find_attribute_offset :: "bytes \<Rightarrow> u16 \<Rightarrow> nat option" where
  "find_attribute_offset raw wanted = find_from raw wanted STUN_HEADER_SIZE"

definition verify_integrity :: "mac \<Rightarrow> bytes \<Rightarrow> bytes \<Rightarrow> bool" where
  "verify_integrity S raw key =
     (case find_attribute_offset raw (attr_to_u16 MessageIntegrity) of
        None \<Rightarrow> False
      | Some mi_offset \<Rightarrow>
          (if length raw < mi_offset + 24 then False
           else
             (let adjusted_len = of_nat (mi_offset - STUN_HEADER_SIZE + 24) :: u16;
                  input = take 2 raw @ to_be 2 adjusted_len @ drop 4 (take mi_offset raw);
                  expected = S key input
              in constant_time_eq expected (take 20 (drop (mi_offset + 4) raw)))))"

definition verify_fingerprint :: "(bytes \<Rightarrow> u32) \<Rightarrow> bytes \<Rightarrow> bool" where
  "verify_fingerprint crc raw =
     (case find_attribute_offset raw (attr_to_u16 Fingerprint) of
        None \<Rightarrow> True
      | Some off \<Rightarrow>
          (if length raw < off + 8 then False
           else
             (let stored = of_be [raw ! (off + 4), raw ! (off + 5), raw ! (off + 6), raw ! (off + 7)];
                  len = of_nat (off - STUN_HEADER_SIZE + 8) :: u16;
                  head = take 2 raw @ to_be 2 len @ drop 4 (take off raw)
              in crc head XOR STUN_FINGERPRINT_XOR = stored)))"

datatype stun_error =
    MessageTooShort | InvalidMagicCookie | UnknownMessageType u16 | LengthNotAligned
  | LengthMismatch | AttributeExceedsMessage

text \<open>The attribute loop of \<^verbatim>\<open>decode\<close> from an offset, with the attributes read so far.\<close>

function decode_attrs ::
  "bytes \<Rightarrow> nat \<Rightarrow> nat \<Rightarrow> bool \<Rightarrow> stun_attribute list \<Rightarrow> stun_error + stun_attribute list" where
  "decode_attrs data offset limit seen_integrity acc =
     (if offset + 4 \<le> limit then
        (let aty = be16_at data offset;
             al = unat (be16_at data (offset + 2));
             offset = offset + 4
         in if offset + al > limit then Inl AttributeExceedsMessage
            else
              (let ignored = seen_integrity \<and> aty \<noteq> attr_to_u16 Fingerprint;
                   acc = (if ignored then acc
                          else acc @ [\<lparr> attr_type = aty, attr_value = take al (drop offset data) \<rparr>]);
                   seen_integrity = (if aty = attr_to_u16 MessageIntegrity then True else seen_integrity)
               in decode_attrs data (offset + (al + attr_padding al)) limit seen_integrity acc))
      else Inr acc)"
  by pat_completeness auto
termination by (relation "measure (\<lambda>(_, offset, limit, _, _). limit - offset)") auto

declare decode_attrs.simps [simp del]

definition stun_decode :: "bytes \<Rightarrow> stun_error + stun_message" where
  "stun_decode data =
     (if length data < STUN_HEADER_SIZE then Inl MessageTooShort
      else
        (let msg_type_raw = be16_at data 0;
             msg_len = unat (be16_at data 2);
             magic = of_be [data ! 4, data ! 5, data ! 6, data ! 7]
         in if magic \<noteq> STUN_MAGIC_COOKIE then Inl InvalidMagicCookie
            else case msg_from_u16 msg_type_raw of
              None \<Rightarrow> Inl (UnknownMessageType msg_type_raw)
            | Some t \<Rightarrow>
                (let tid = take 12 (drop 8 data)
                 in if msg_len mod 4 \<noteq> 0 then Inl LengthNotAligned
                    else if length data \<noteq> STUN_HEADER_SIZE + msg_len then Inl LengthMismatch
                    else case decode_attrs data STUN_HEADER_SIZE (STUN_HEADER_SIZE + msg_len) False [] of
                      Inl e \<Rightarrow> Inl e
                    | Inr attrs \<Rightarrow>
                        Inr \<lparr> msg_type = t, transaction_id = tid, attributes = attrs \<rparr>)))"

definition stun_frame_len :: "bytes \<Rightarrow> nat option" where
  "stun_frame_len data =
     (if length data < STUN_HEADER_SIZE then None
      else if data ! 0 AND 0xC0 \<noteq> 0x00 then None
      else if (of_be [data ! 4, data ! 5, data ! 6, data ! 7] :: u32) \<noteq> STUN_MAGIC_COOKIE then None
      else Some (STUN_HEADER_SIZE + unat (be16_at data 2)))"

definition is_stun :: "bytes \<Rightarrow> bool" where
  "is_stun data \<longleftrightarrow> stun_frame_len data \<noteq> None"

section \<open>Types and addresses\<close>

lemma msg_from_to_u16 [simp]: "msg_from_u16 (msg_to_u16 t) = Some t"
  by (cases t) (simp_all add: msg_from_u16_def)

lemma attr_from_to_u16: "attr_from_u16 (attr_to_u16 t) = Some t"
  by (cases t) (simp_all add: attr_from_u16_def)

lemma attr_to_u16_eq [simp]: "attr_to_u16 a = attr_to_u16 b \<longleftrightarrow> a = b"
  by (metis attr_from_to_u16 option.inject)

declare attr_to_u16.simps [simp del]

lemma list2: "length xs = 2 \<Longrightarrow> \<exists>a b. xs = [a, b]"
  by (auto simp: numeral_2_eq_2 length_Suc_conv)

lemma list4: "length xs = 4 \<Longrightarrow> \<exists>a b c d. xs = [a, b, c, d]"
  by (auto simp: numeral_eq_Suc length_Suc_conv)

lemma map2_xor_twice:
  "length a \<le> length k \<Longrightarrow> map2 (XOR) (map2 (XOR) a k) k = (a :: u8 list)"
  by (rule nth_equalityI) (auto simp: xor.assoc)

lemma length_cookie_bytes [simp]: "length cookie_bytes = 4"
  by (simp add: cookie_bytes_def)

lemma xor_address_roundtrip:
  assumes "length (transaction_id m) = 12"
  shows "decode_xor_address m (encode_xor_address m addr) = Some addr"
proof -
  obtain a b where ab: "to_be 2 (sa_port addr XOR port_mask) = [a, b]"
    using list2 [OF length_to_be] by blast
  have port: "(of_be [a, b] :: u16) XOR port_mask = sa_port addr"
    by (simp flip: ab add: xor.assoc)
  show ?thesis
  proof (cases "sa_ip addr")
    case (V4 ip)
    have "map2 (XOR) (map2 (XOR) (to_be 4 ip) cookie_bytes) cookie_bytes = to_be 4 ip"
      by (rule map2_xor_twice) simp
    moreover have "socket_new (V4 ip) (sa_port addr) = addr" by (simp flip: V4)
    ultimately show ?thesis using V4 port
      by (simp add: encode_xor_address_def decode_xor_address_def ab Let_def)
  next
    case (V6 ip)
    have "map2 (XOR) (map2 (XOR) (to_be 16 ip) (cookie_bytes @ transaction_id m)) (cookie_bytes @ transaction_id m) = to_be 16 ip"
      by (rule map2_xor_twice) (simp add: assms)
    moreover have "socket_new (V6 ip) (sa_port addr) = addr" by (simp flip: V6)
    ultimately show ?thesis using V6 port
      by (simp add: encode_xor_address_def decode_xor_address_def ab Let_def assms of_be_to_be)
  qed
qed

section \<open>Walking the attributes\<close>

lemma be16_at_append: "length xs = 2 \<Longrightarrow> be16_at (pre @ xs @ post) (length pre) = of_be xs"
  using list2 [of xs] by (auto simp: be16_at_def nth_append)

lemma be16_at_encoded [simp]: "be16_at (pre @ to_be 2 w @ post) (length pre) = w"
  by (simp add: be16_at_append)

lemma length_encode_attribute:
  "length (encode_attribute a) = 4 + length (attr_value a) + attr_padding (length (attr_value a))"
  by (simp add: encode_attribute_def)

lemma encode_attribute_at:
  assumes "length (attr_value a) < 65536"
  shows "be16_at (pre @ encode_attribute a @ post) (length pre) = attr_type a"
    and "unat (be16_at (pre @ encode_attribute a @ post) (length pre + 2)) = length (attr_value a)"
    and "take (length (attr_value a)) (drop (length pre + 4) (pre @ encode_attribute a @ post)) = attr_value a"
proof -
  let ?n = "of_nat (length (attr_value a)) :: u16"
  let ?v = "attr_value a @ replicate (attr_padding (length (attr_value a))) 0"
  have split: "pre @ encode_attribute a @ post = (pre @ to_be 2 (attr_type a)) @ to_be 2 ?n @ ?v @ post"
    by (simp add: encode_attribute_def)
  show "be16_at (pre @ encode_attribute a @ post) (length pre) = attr_type a"
    by (simp add: encode_attribute_def)
  have "be16_at (pre @ encode_attribute a @ post) (length (pre @ to_be 2 (attr_type a))) = ?n"
    unfolding split by (rule be16_at_encoded)
  then show "unat (be16_at (pre @ encode_attribute a @ post) (length pre + 2)) = length (attr_value a)"
    using assms by (simp add: unat_of_nat)
  show "take (length (attr_value a)) (drop (length pre + 4) (pre @ encode_attribute a @ post)) = attr_value a"
    by (simp add: encode_attribute_def)
qed

lemma find_from_attribute:
  assumes "length (attr_value a) < 65536"
  shows "find_from (pre @ encode_attribute a @ post) wanted (length pre) =
    (if attr_type a = wanted then Some (length pre)
     else find_from (pre @ encode_attribute a @ post) wanted (length (pre @ encode_attribute a)))"
  by (subst find_from.simps)
    (simp add: encode_attribute_at [OF assms] length_encode_attribute Let_def add.assoc
      del: add_2_eq_Suc add_2_eq_Suc')

lemma decode_attrs_attribute:
  assumes "length (attr_value a) < 65536" and "limit = length (pre @ encode_attribute a @ post)"
  shows "decode_attrs (pre @ encode_attribute a @ post) (length pre) limit seen acc =
    decode_attrs (pre @ encode_attribute a @ post) (length (pre @ encode_attribute a)) limit
      (seen \<or> attr_type a = attr_to_u16 MessageIntegrity)
      (if seen \<and> attr_type a \<noteq> attr_to_u16 Fingerprint then acc else acc @ [a])"
proof (cases a)
  case (fields t v)
  have "take (length v) (drop 4 (encode_attribute a)) = v"
    using encode_attribute_at(3) [OF assms(1), of "[]" "[]"] by (simp add: fields)
  then show ?thesis
    using encode_attribute_at(1,2) [OF assms(1), of pre post] length_encode_attribute [of a]
    by (subst decode_attrs.simps)
      (simp add: fields Let_def add.assoc assms(2) del: add_2_eq_Suc add_2_eq_Suc')
qed

lemma find_from_attributes:
  assumes "\<forall>a \<in> set as. length (attr_value a) < 65536 \<and> attr_type a \<noteq> wanted"
  shows "find_from (pre @ concat (map encode_attribute as) @ post) wanted (length pre) =
    find_from (pre @ concat (map encode_attribute as) @ post) wanted
      (length (pre @ concat (map encode_attribute as)))"
  using assms
proof (induction as arbitrary: pre)
  case (Cons a as)
  from Cons.prems have "find_from (pre @ encode_attribute a @ concat (map encode_attribute as) @ post) wanted (length pre) =
      find_from (pre @ encode_attribute a @ concat (map encode_attribute as) @ post) wanted (length (pre @ encode_attribute a))"
    by (simp add: find_from_attribute)
  with Cons.IH [of "pre @ encode_attribute a"] Cons.prems show ?case by simp
qed simp

lemma decode_attrs_attributes:
  assumes "\<forall>a \<in> set as. length (attr_value a) < 65536 \<and> attr_type a \<noteq> attr_to_u16 MessageIntegrity"
    and "limit = length (pre @ concat (map encode_attribute as) @ post)"
  shows "decode_attrs (pre @ concat (map encode_attribute as) @ post) (length pre) limit False acc =
    decode_attrs (pre @ concat (map encode_attribute as) @ post)
      (length (pre @ concat (map encode_attribute as))) limit False (acc @ as)"
  using assms
proof (induction as arbitrary: pre acc)
  case (Cons a as)
  from Cons.prems have "decode_attrs (pre @ encode_attribute a @ concat (map encode_attribute as) @ post) (length pre) limit False acc =
      decode_attrs (pre @ encode_attribute a @ concat (map encode_attribute as) @ post)
        (length (pre @ encode_attribute a)) limit False (acc @ [a])"
    by (simp add: decode_attrs_attribute)
  with Cons.IH [of "pre @ encode_attribute a" "acc @ [a]"] Cons.prems show ?case
    by (simp)
qed simp

section \<open>The encoded message\<close>

abbreviation body :: "stun_message \<Rightarrow> bytes" where
  "body m \<equiv> concat (map encode_attribute (filter (\<lambda>a. \<not> is_trailer a) (attributes m)))"

definition stun_header :: "stun_message \<Rightarrow> nat \<Rightarrow> bytes" where
  "stun_header m len = to_be 2 (msg_to_u16 (msg_type m)) @ to_be 2 (of_nat len :: u16)
     @ to_be 4 STUN_MAGIC_COOKIE @ transaction_id m"

lemma length_stun_header [simp]: "length (stun_header m len) = 8 + length (transaction_id m)"
  by (simp add: stun_header_def)

lemma to_be_2: "to_be 2 (w :: u16) = [ucast (drop_bit 8 w), ucast w]"
  by (simp add: to_be_def numeral_2_eq_2)

lemma set_length_header: "set_length n (stun_header m len @ r) = stun_header m n @ r"
  by (simp add: set_length_def stun_header_def to_be_2 Let_def)

lemma encode_base_eq: "encode_base m = stun_header m (length (body m)) @ body m"
  by (simp add: encode_base_def stun_header_def Let_def)

definition fingerprint_attr :: "(bytes \<Rightarrow> u32) \<Rightarrow> bytes \<Rightarrow> stun_attribute" where
  "fingerprint_attr crc covered =
     \<lparr> attr_type = attr_to_u16 Fingerprint, attr_value = to_be 4 (crc covered XOR STUN_FINGERPRINT_XOR) \<rparr>"

definition integrity_attr :: "mac \<Rightarrow> bytes \<Rightarrow> bytes \<Rightarrow> stun_attribute" where
  "integrity_attr S key covered =
     \<lparr> attr_type = attr_to_u16 MessageIntegrity, attr_value = S key covered \<rparr>"

lemma append_fingerprint_eq:
  assumes "length (transaction_id m) = 12"
  shows "append_fingerprint crc (stun_header m len @ r) =
    stun_header m (length r + 8) @ r @ encode_attribute (fingerprint_attr crc (stun_header m (length r + 8) @ r))"
  using assms
  by (simp add: append_fingerprint_def set_length_header STUN_HEADER_SIZE_def Let_def encode_attribute_def
      fingerprint_attr_def attr_padding_def)

lemma stun_encode_eq:
  assumes "length (transaction_id m) = 12"
  shows "stun_encode crc m = stun_header m (length (body m) + 8) @ body m
    @ encode_attribute (fingerprint_attr crc (stun_header m (length (body m) + 8) @ body m))"
  by (simp add: stun_encode_def encode_base_eq append_fingerprint_eq [OF assms])

lemma encode_with_integrity_eq:
  assumes "length (transaction_id m) = 12" and "\<And>k x. length (S k x) = 20"
  shows "encode_with_integrity S crc key m =
    (let covered = stun_header m (length (body m) + 24) @ body m;
         mi = encode_attribute (integrity_attr S key covered);
         fp = encode_attribute (fingerprint_attr crc (stun_header m (length (body m) + 32) @ body m @ mi))
     in stun_header m (length (body m) + 32) @ body m @ mi @ fp)"
  using assms(1)
  by (simp add: encode_with_integrity_def encode_base_eq set_length_header STUN_HEADER_SIZE_def Let_def
      append_fingerprint_eq [OF assms(1)] integrity_attr_def encode_attribute_def assms(2) attr_padding_def
      add.commute [of 32])

text \<open>A message that fits its length fields.\<close>

definition encodable :: "stun_message \<Rightarrow> bool" where
  "encodable m \<longleftrightarrow> length (transaction_id m) = 12
     \<and> (\<forall>a \<in> set (attributes m). length (attr_value a) < 65536) \<and> length (body m) + 32 < 65536"

lemma length_attribute_mod: "length (encode_attribute a) mod 4 = 0"
proof -
  have "(4 + n + (4 - n mod 4) mod 4) mod 4 = 0" for n :: nat
  proof -
    define r where "r = n mod 4"
    have shift: "(4 + n + x) mod 4 = (r + x) mod 4" for x by (simp add: r_def add.assoc mod_simps)
    have "r < 4" by (simp add: r_def)
    then consider "r = 0" | "r = 1" | "r = 2" | "r = 3" by linarith
    then have "(r + (4 - r) mod 4) mod 4 = 0" by cases simp_all
    with shift [of "(4 - r) mod 4"] show ?thesis by (simp only: r_def)
  qed
  then show ?thesis by (simp add: length_encode_attribute attr_padding_def)
qed

lemma length_attributes_mod: "length (concat (map encode_attribute as)) mod 4 = 0"
proof -
  have "4 dvd length (concat (map encode_attribute as))"
    by (induction as) (use length_attribute_mod in \<open>auto simp: mod_eq_0_iff_dvd\<close>)
  then show ?thesis by simp
qed

lemma stun_decode_header:
  assumes "length (transaction_id m) = 12" and "length r = n" and "n < 65536" and "n mod 4 = 0"
  shows "stun_decode (stun_header m n @ r) =
    (case decode_attrs (stun_header m n @ r) 20 (20 + n) False [] of
       Inl e \<Rightarrow> Inl e | Inr attrs \<Rightarrow> Inr (m\<lparr>attributes := attrs\<rparr>))"
proof -
  let ?raw = "stun_header m n @ r"
  have h: "?raw = to_be 2 (msg_to_u16 (msg_type m)) @ to_be 2 (of_nat n :: u16)
      @ to_be 4 STUN_MAGIC_COOKIE @ transaction_id m @ r" by (simp add: stun_header_def)
  obtain a b where t: "to_be 2 (msg_to_u16 (msg_type m)) = [a, b]" using list2 [OF length_to_be] by blast
  obtain c d where l: "to_be 2 (of_nat n :: u16) = [c, d]" using list2 [OF length_to_be] by blast
  obtain e f g k where mc: "to_be 4 STUN_MAGIC_COOKIE = [e, f, g, k]" using list4 [OF length_to_be] by blast
  have "be16_at ?raw 0 = of_be (to_be 2 (msg_to_u16 (msg_type m)))" unfolding t by (simp add: be16_at_def h t)
  then have "be16_at ?raw 0 = msg_to_u16 (msg_type m)" by simp
  moreover have "unat (be16_at ?raw 2) = n"
  proof -
    have "be16_at ?raw 2 = of_be (to_be 2 (of_nat n :: u16))" unfolding l by (simp add: be16_at_def h t l)
    then show ?thesis using assms(3) by (simp add: unat_of_nat)
  qed
  moreover have "of_be [?raw ! 4, ?raw ! 5, ?raw ! 6, ?raw ! 7] = STUN_MAGIC_COOKIE"
  proof -
    have "[?raw ! 4, ?raw ! 5, ?raw ! 6, ?raw ! 7] = to_be 4 STUN_MAGIC_COOKIE" by (simp add: h t l mc)
    then show ?thesis by simp
  qed
  moreover have "take 12 (drop 8 ?raw) = transaction_id m" using assms(1) by (simp add: h)
  ultimately show ?thesis
    using assms by (simp add: stun_decode_def STUN_HEADER_SIZE_def Let_def split: sum.splits)
qed

lemma non_trailer:
  "a \<in> set (filter (\<lambda>a. \<not> is_trailer a) (attributes m)) \<Longrightarrow>
     attr_type a \<noteq> attr_to_u16 MessageIntegrity \<and> attr_type a \<noteq> attr_to_u16 Fingerprint"
  by (auto simp: is_trailer_def)

lemma decode_attrs_end: "limit \<le> offset \<Longrightarrow> decode_attrs data offset limit seen acc = Inr acc"
  by (subst decode_attrs.simps) simp

text \<open>
  Decoding the body followed by trailers: MESSAGE-INTEGRITY and FINGERPRINT, or FINGERPRINT alone.
\<close>

lemma decode_body:
  assumes enc: "encodable m" and tr: "\<forall>a \<in> set trailers. length (attr_value a) < 65536"
    and len: "length r = n" "n < 65536" and r: "r = body m @ concat (map encode_attribute trailers)"
  shows "stun_decode (stun_header m n @ r) =
    (case decode_attrs (stun_header m n @ r) (20 + length (body m)) (20 + n) False
        (filter (\<lambda>a. \<not> is_trailer a) (attributes m)) of
       Inl e \<Rightarrow> Inl e | Inr attrs \<Rightarrow> Inr (m\<lparr>attributes := attrs\<rparr>))"
proof -
  from enc have tid: "length (transaction_id m) = 12" by (simp add: encodable_def)
  have "n mod 4 = 0"
    using len(1) r length_attributes_mod [of "filter (\<lambda>a. \<not> is_trailer a) (attributes m) @ trailers"] by simp
  then have dec: "stun_decode (stun_header m n @ r) =
      (case decode_attrs (stun_header m n @ r) 20 (20 + n) False [] of
         Inl e \<Rightarrow> Inl e | Inr attrs \<Rightarrow> Inr (m\<lparr>attributes := attrs\<rparr>))"
    using tid len by (intro stun_decode_header) auto
  have "decode_attrs (stun_header m n @ body m @ concat (map encode_attribute trailers))
      (length (stun_header m n)) (20 + n) False [] =
    decode_attrs (stun_header m n @ body m @ concat (map encode_attribute trailers))
      (length (stun_header m n @ body m)) (20 + n) False ([] @ filter (\<lambda>a. \<not> is_trailer a) (attributes m))"
    using enc len(1) r tid
    by (intro decode_attrs_attributes) (auto simp: encodable_def is_trailer_def)
  with dec tid r show ?thesis by simp
qed

lemma trailer_types [simp]:
  "attr_type (integrity_attr S key x) = attr_to_u16 MessageIntegrity"
  "attr_type (fingerprint_attr crc x) = attr_to_u16 Fingerprint"
  "length (attr_value (fingerprint_attr crc x)) = 4"
  "attr_value (integrity_attr S key x) = S key x"
  by (simp_all add: integrity_attr_def fingerprint_attr_def)

lemma length_trailers:
  "(\<And>k x. length (S k x) = 20) \<Longrightarrow> length (encode_attribute (integrity_attr S key x)) = 24"
  "length (encode_attribute (fingerprint_attr crc x)) = 8"
  by (simp_all add: length_encode_attribute attr_padding_def)

lemma relength:
  assumes "length (transaction_id m) = 12"
  shows "take 2 (stun_header m n @ x @ y) @ to_be 2 (of_nat k :: u16)
      @ drop 4 (take (20 + length x) (stun_header m n @ x @ y)) = stun_header m k @ x"
  using assms by (simp add: stun_header_def)

lemma find_after_body:
  assumes "encodable m" and "wanted \<in> {attr_to_u16 MessageIntegrity, attr_to_u16 Fingerprint}"
  shows "find_attribute_offset (stun_header m n @ body m @ r) wanted =
    find_from (stun_header m n @ body m @ r) wanted (20 + length (body m))"
proof -
  have "find_from (stun_header m n @ body m @ r) wanted (length (stun_header m n)) =
      find_from (stun_header m n @ body m @ r) wanted (length (stun_header m n @ body m))"
    using assms by (intro find_from_attributes) (auto simp: encodable_def is_trailer_def)
  then show ?thesis
    using assms(1) by (simp add: find_attribute_offset_def STUN_HEADER_SIZE_def encodable_def)
qed

lemma find_trailer:
  assumes enc: "encodable m" and a: "length (attr_value a) < 65536"
    and w: "wanted \<in> {attr_to_u16 MessageIntegrity, attr_to_u16 Fingerprint}"
  shows "find_attribute_offset (stun_header m n @ body m @ encode_attribute a @ r) wanted =
    (if attr_type a = wanted then Some (20 + length (body m))
     else find_from (stun_header m n @ body m @ encode_attribute a @ r) wanted
       (20 + length (body m) + length (encode_attribute a)))"
proof -
  from enc have tid: "length (transaction_id m) = 12" by (simp add: encodable_def)
  have "find_from ((stun_header m n @ body m) @ encode_attribute a @ r) wanted (length (stun_header m n @ body m)) =
    (if attr_type a = wanted then Some (length (stun_header m n @ body m))
     else find_from ((stun_header m n @ body m) @ encode_attribute a @ r) wanted
       (length ((stun_header m n @ body m) @ encode_attribute a)))"
    by (rule find_from_attribute [OF a])
  with find_after_body [OF enc w] tid show ?thesis by (simp add: add.assoc)
qed

lemma verify_integrityI:
  assumes "find_attribute_offset raw (attr_to_u16 MessageIntegrity) = Some (20 + n)"
    and "take 2 raw @ to_be 2 (of_nat (n + 24) :: u16) @ drop 4 (take (20 + n) raw) = covered"
    and "take 20 (drop (20 + n + 4) raw) = S key covered" and "20 + n + 24 \<le> length raw"
  shows "verify_integrity S raw key"
  using assms by (simp add: verify_integrity_def STUN_HEADER_SIZE_def constant_time_eq_def Let_def
     )

lemma verify_fingerprintI:
  assumes "find_attribute_offset raw (attr_to_u16 Fingerprint) = Some (20 + n)"
    and "take 2 raw @ to_be 2 (of_nat (n + 8) :: u16) @ drop 4 (take (20 + n) raw) = covered"
    and tag: "drop (20 + n + 4) raw = to_be 4 (crc covered XOR STUN_FINGERPRINT_XOR)"
  shows "verify_fingerprint crc raw"
proof -
  let ?c = "crc covered XOR STUN_FINGERPRINT_XOR"
  have len: "20 + n + 8 = length raw" using arg_cong [OF tag, of length] by simp
  obtain e f g k where c: "to_be 4 ?c = [e, f, g, k]" using list4 [OF length_to_be] by blast
  have "raw ! (20 + n + 4 + i) = to_be 4 ?c ! i" if "i < 4" for i
    unfolding tag [symmetric] by (rule nth_drop [symmetric]) (use len that in simp)
  from this [of 0] this [of 1] this [of 2] this [of 3]
  have "[raw ! (20 + n + 4), raw ! (20 + n + 5), raw ! (20 + n + 6), raw ! (20 + n + 7)] = to_be 4 ?c"
    by (simp add: c add.commute add.left_commute)
  then have "of_be [raw ! (20 + n + 4), raw ! (20 + n + 5), raw ! (20 + n + 6), raw ! (20 + n + 7)] = ?c"
    by (simp only: of_be_to_be_32)
  with assms(1,2) len show ?thesis
    by (simp add: verify_fingerprint_def STUN_HEADER_SIZE_def Let_def)
qed

lemma verify_integrity_trailer:
  assumes S: "\<And>k x. length (S k x) = 20" and enc: "encodable m"
  shows "verify_integrity S (stun_header m n @ body m
    @ encode_attribute (integrity_attr S key (stun_header m (length (body m) + 24) @ body m)) @ r) key"
proof (rule verify_integrityI)
  let ?mi = "integrity_attr S key (stun_header m (length (body m) + 24) @ body m)"
  let ?raw = "stun_header m n @ body m @ encode_attribute ?mi @ r"
  from enc have tid: "length (transaction_id m) = 12" by (simp add: encodable_def)
  show "find_attribute_offset ?raw (attr_to_u16 MessageIntegrity) = Some (20 + length (body m))"
    using find_trailer [OF enc, of ?mi "attr_to_u16 MessageIntegrity"] S by simp
  show "take 2 ?raw @ to_be 2 (of_nat (length (body m) + 24) :: u16) @ drop 4 (take (20 + length (body m)) ?raw)
      = stun_header m (length (body m) + 24) @ body m"
    by (rule relength [OF tid])
  show "take 20 (drop (20 + length (body m) + 4) ?raw) = S key (stun_header m (length (body m) + 24) @ body m)"
    using tid S by (simp add: encode_attribute_def)
  show "20 + length (body m) + 24 \<le> length ?raw"
    using tid length_trailers(1) [of S key] S by simp
qed

lemma verify_fingerprint_trailer:
  assumes tid: "length (transaction_id m) = 12"
    and off: "find_attribute_offset (stun_header m n @ x @ encode_attribute (fingerprint_attr crc (stun_header m (length x + 8) @ x)))
      (attr_to_u16 Fingerprint) = Some (20 + length x)"
  shows "verify_fingerprint crc
    (stun_header m n @ x @ encode_attribute (fingerprint_attr crc (stun_header m (length x + 8) @ x)))"
  by (rule verify_fingerprintI [OF off relength [OF tid]])
    (use tid in \<open>simp add: encode_attribute_def fingerprint_attr_def attr_padding_def\<close>)

lemma find_fingerprint:
  assumes enc: "encodable m"
  shows "find_attribute_offset (stun_header m n @ body m @ encode_attribute (fingerprint_attr crc x))
      (attr_to_u16 Fingerprint) = Some (20 + length (body m))"
    and "length (S key y) = 20 \<Longrightarrow>
      find_attribute_offset (stun_header m n @ (body m @ encode_attribute (integrity_attr S key y))
        @ encode_attribute (fingerprint_attr crc x)) (attr_to_u16 Fingerprint)
      = Some (20 + length (body m @ encode_attribute (integrity_attr S key y)))"
proof -
  let ?fp = "fingerprint_attr crc x"
  show "find_attribute_offset (stun_header m n @ body m @ encode_attribute ?fp) (attr_to_u16 Fingerprint)
      = Some (20 + length (body m))"
    using find_trailer [OF enc, of ?fp "attr_to_u16 Fingerprint" n "[]"] by simp
  assume len: "length (S key y) = 20"
  let ?mi = "integrity_attr S key y"
  from enc have tid: "length (transaction_id m) = 12" by (simp add: encodable_def)
  let ?pre = "stun_header m n @ body m @ encode_attribute ?mi"
  have "find_from (?pre @ encode_attribute ?fp @ []) (attr_to_u16 Fingerprint) (length ?pre) = Some (length ?pre)"
    by (subst find_from_attribute) simp_all
  with find_trailer [OF enc, of ?mi "attr_to_u16 Fingerprint" n "encode_attribute ?fp"] len tid
  show "find_attribute_offset (stun_header m n @ (body m @ encode_attribute ?mi) @ encode_attribute ?fp)
      (attr_to_u16 Fingerprint) = Some (20 + length (body m @ encode_attribute ?mi))"
    by (simp add: add.assoc)
qed

section \<open>Round trips\<close>

lemma decode_stun_encode:
  assumes enc: "encodable m"
  shows "\<exists>c. stun_decode (stun_encode crc m) =
      Inr (m\<lparr>attributes := filter (\<lambda>a. \<not> is_trailer a) (attributes m)
        @ [\<lparr> attr_type = attr_to_u16 Fingerprint, attr_value = c \<rparr>]\<rparr>)
    \<and> verify_fingerprint crc (stun_encode crc m)"
proof -
  let ?n = "length (body m) + 8"
  let ?fp = "fingerprint_attr crc (stun_header m ?n @ body m)"
  let ?raw = "stun_header m ?n @ body m @ encode_attribute ?fp"
  from enc have tid: "length (transaction_id m) = 12" and small: "?n < 65536" by (simp_all add: encodable_def)
  have "stun_decode ?raw = (case decode_attrs ?raw (20 + length (body m)) (20 + ?n) False
      (filter (\<lambda>a. \<not> is_trailer a) (attributes m)) of
        Inl e \<Rightarrow> Inl e | Inr attrs \<Rightarrow> Inr (m\<lparr>attributes := attrs\<rparr>))"
    using small by (intro decode_body [OF enc, of "[?fp]"]) (simp_all add: length_trailers)
  moreover have "decode_attrs ((stun_header m ?n @ body m) @ encode_attribute ?fp @ [])
      (length (stun_header m ?n @ body m)) (20 + ?n) False acc = Inr (acc @ [?fp])" for acc
    by (subst decode_attrs_attribute) (simp_all add: tid length_trailers decode_attrs_end)
  ultimately have "stun_decode ?raw = Inr (m\<lparr>attributes := filter (\<lambda>a. \<not> is_trailer a) (attributes m) @ [?fp]\<rparr>)"
    using tid by simp
  moreover have "verify_fingerprint crc ?raw"
    by (rule verify_fingerprint_trailer [OF tid find_fingerprint(1) [OF enc]])
  ultimately show ?thesis
    unfolding stun_encode_eq [OF tid] by (auto simp: fingerprint_attr_def)
qed

lemma decode_encode_with_integrity:
  assumes enc: "encodable m" and S: "\<And>k x. length (S k x) = 20"
  shows "\<exists>tag c. stun_decode (encode_with_integrity S crc key m) =
      Inr (m\<lparr>attributes := filter (\<lambda>a. \<not> is_trailer a) (attributes m)
        @ [\<lparr> attr_type = attr_to_u16 MessageIntegrity, attr_value = tag \<rparr>,
           \<lparr> attr_type = attr_to_u16 Fingerprint, attr_value = c \<rparr>]\<rparr>)
    \<and> verify_integrity S (encode_with_integrity S crc key m) key
    \<and> verify_fingerprint crc (encode_with_integrity S crc key m)"
proof -
  let ?n = "length (body m) + 32"
  let ?mi = "integrity_attr S key (stun_header m (length (body m) + 24) @ body m)"
  let ?fp = "fingerprint_attr crc (stun_header m ?n @ body m @ encode_attribute ?mi)"
  let ?raw = "stun_header m ?n @ body m @ encode_attribute ?mi @ encode_attribute ?fp"
  from enc have tid: "length (transaction_id m) = 12" and small: "?n < 65536" by (simp_all add: encodable_def)
  note len = length_trailers(1) [of S, OF S] length_trailers(2)
  have "stun_decode ?raw = (case decode_attrs ?raw (20 + length (body m)) (20 + ?n) False
      (filter (\<lambda>a. \<not> is_trailer a) (attributes m)) of
        Inl e \<Rightarrow> Inl e | Inr attrs \<Rightarrow> Inr (m\<lparr>attributes := attrs\<rparr>))"
    using small by (intro decode_body [OF enc, of "[?mi, ?fp]"]) (simp_all add: len S)
  moreover have "decode_attrs ((stun_header m ?n @ body m) @ encode_attribute ?mi @ encode_attribute ?fp)
      (length (stun_header m ?n @ body m)) (20 + ?n) False acc =
      decode_attrs (((stun_header m ?n @ body m) @ encode_attribute ?mi) @ encode_attribute ?fp @ [])
      (length ((stun_header m ?n @ body m) @ encode_attribute ?mi)) (20 + ?n) True (acc @ [?mi])" for acc
    by (subst decode_attrs_attribute) (simp_all add: tid len S)
  moreover have "decode_attrs (((stun_header m ?n @ body m) @ encode_attribute ?mi) @ encode_attribute ?fp @ [])
      (length ((stun_header m ?n @ body m) @ encode_attribute ?mi)) (20 + ?n) True acc = Inr (acc @ [?fp])" for acc
    by (subst decode_attrs_attribute) (simp_all add: tid len decode_attrs_end)
  ultimately have "stun_decode ?raw =
      Inr (m\<lparr>attributes := filter (\<lambda>a. \<not> is_trailer a) (attributes m) @ [?mi, ?fp]\<rparr>)"
    using tid by simp
  moreover have "verify_integrity S ?raw key" by (rule verify_integrity_trailer [OF S enc])
  moreover have "verify_fingerprint crc
      (stun_header m ?n @ (body m @ encode_attribute ?mi) @ encode_attribute ?fp)"
  proof -
    have x: "length (body m @ encode_attribute ?mi) + 8 = ?n" by (simp add: len)
    show ?thesis
      by (rule verify_fingerprint_trailer [OF tid, of ?n "body m @ encode_attribute ?mi" crc, unfolded x],
          rule find_fingerprint(2) [OF enc]) (rule S)
  qed
  ultimately show ?thesis
    unfolding encode_with_integrity_eq [of m S crc key, OF tid S] Let_def
    by (auto simp: fingerprint_attr_def integrity_attr_def)
qed

section \<open>What the integrity check covers\<close>

lemma find_from_ge: "find_from raw wanted i = Some off \<Longrightarrow> i \<le> off \<and> off + 4 \<le> length raw"
proof (induction raw wanted i rule: find_from.induct)
  case (1 raw wanted i)
  then show ?case
    by (subst (asm) (2) find_from.simps) (fastforce simp: Let_def split: if_splits)
qed

definition attr_at :: "bytes \<Rightarrow> nat \<Rightarrow> stun_attribute" where
  "attr_at data i = \<lparr> attr_type = be16_at data i, attr_value = take (unat (be16_at data (i + 2))) (drop (i + 4) data) \<rparr>"

definition attr_next :: "bytes \<Rightarrow> nat \<Rightarrow> nat" where
  "attr_next data i = i + 4 + (unat (be16_at data (i + 2)) + attr_padding (unat (be16_at data (i + 2))))"

lemma attr_type_at [simp]: "attr_type (attr_at data i) = be16_at data i"
  by (simp add: attr_at_def)

lemma attr_next_gt: "i < attr_next data i"
  by (simp add: attr_next_def)

lemma decode_attrs_step:
  assumes "offset + 4 \<le> limit"
  shows "decode_attrs data offset limit seen acc =
    (if offset + 4 + unat (be16_at data (offset + 2)) > limit then Inl AttributeExceedsMessage
     else decode_attrs data (attr_next data offset) limit (seen \<or> be16_at data offset = attr_to_u16 MessageIntegrity)
       (if seen \<and> be16_at data offset \<noteq> attr_to_u16 Fingerprint then acc else acc @ [attr_at data offset]))"
  using assms by (subst decode_attrs.simps) (simp add: Let_def attr_next_def attr_at_def)

lemma find_from_step:
  "i + 4 \<le> length raw \<Longrightarrow> find_from raw wanted i =
     (if be16_at raw i = wanted then Some i else find_from raw wanted (attr_next raw i))"
  by (subst find_from.simps) (simp add: Let_def attr_next_def add.assoc)

text \<open>After MESSAGE-INTEGRITY only FINGERPRINT attributes are kept.\<close>

lemma decode_attrs_seen:
  "decode_attrs data offset limit True acc = Inr attrs \<Longrightarrow>
     \<exists>fps. attrs = acc @ fps \<and> (\<forall>a \<in> set fps. attr_type a = attr_to_u16 Fingerprint)"
proof (induction "limit - offset" arbitrary: offset acc rule: less_induct)
  case less
  show ?case
  proof (cases "offset + 4 \<le> limit")
    case True
    let ?acc = "if be16_at data offset \<noteq> attr_to_u16 Fingerprint then acc else acc @ [attr_at data offset]"
    from less.prems decode_attrs_step [OF True, of data True acc]
    have rec: "decode_attrs data (attr_next data offset) limit True ?acc = Inr attrs"
      by (simp split: if_splits)
    have "limit - attr_next data offset < limit - offset"
      using True attr_next_gt [of offset data] by simp
    from less.hyps [OF this rec] obtain fps where
      "attrs = ?acc @ fps" "\<forall>a \<in> set fps. attr_type a = attr_to_u16 Fingerprint" by blast
    then show ?thesis
      by (intro exI [of _ "(if be16_at data offset \<noteq> attr_to_u16 Fingerprint then [] else [attr_at data offset]) @ fps"])
        auto
  next
    case False
    with less.prems show ?thesis by (simp add: decode_attrs.simps [of data offset])
  qed
qed

text \<open>
  Up to the offset where the verifier finds MESSAGE-INTEGRITY, the decoder reads the same attributes
  from the whole message and from the bytes before that offset.
\<close>

lemma decode_attrs_prefix:
  assumes "find_from data (attr_to_u16 MessageIntegrity) offset = Some off"
    and "decode_attrs data offset (length data) False acc = Inr attrs"
  shows "\<exists>before mi fps. attrs = before @ mi # fps \<and> attr_type mi = attr_to_u16 MessageIntegrity
    \<and> (\<forall>a \<in> set fps. attr_type a = attr_to_u16 Fingerprint)
    \<and> decode_attrs (take off data) offset off False acc = Inr before"
  using assms
proof (induction "length data - offset" arbitrary: offset acc rule: less_induct)
  case less
  let ?o = "attr_next data offset"
  from find_from_ge [OF less.prems(1)] have ge: "offset + 4 \<le> length data" "offset \<le> off" by auto
  from less.prems(2) decode_attrs_step [OF ge(1), of data False acc]
  have rec: "decode_attrs data ?o (length data) (be16_at data offset = attr_to_u16 MessageIntegrity)
      (acc @ [attr_at data offset]) = Inr attrs"
    by (simp split: if_splits)
  show ?case
  proof (cases "be16_at data offset = attr_to_u16 MessageIntegrity")
    case True
    with less.prems(1) have "off = offset" by (simp add: find_from_step [OF ge(1)])
    moreover from rec True have "decode_attrs data ?o (length data) True (acc @ [attr_at data offset]) = Inr attrs"
      by simp
    from decode_attrs_seen [OF this] obtain fps where
      "attrs = (acc @ [attr_at data offset]) @ fps" "\<forall>a \<in> set fps. attr_type a = attr_to_u16 Fingerprint" by blast
    ultimately show ?thesis
      using True by (intro exI [of _ acc] exI [of _ "attr_at data offset"] exI [of _ fps]) (simp add: decode_attrs_end)
  next
    case False
    with less.prems(1) have f: "find_from data (attr_to_u16 MessageIntegrity) ?o = Some off"
      by (simp add: find_from_step [OF ge(1)])
    with find_from_ge have le: "?o \<le> off" by blast
    have dec: "length data - ?o < length data - offset" using ge attr_next_gt [of offset data] by simp
    from less.hyps [OF dec f, of "acc @ [attr_at data offset]"] rec False obtain before mi fps where
      *: "attrs = before @ mi # fps" "attr_type mi = attr_to_u16 MessageIntegrity"
      "\<forall>a \<in> set fps. attr_type a = attr_to_u16 Fingerprint"
      "decode_attrs (take off data) ?o off False (acc @ [attr_at data offset]) = Inr before" by auto
    have le4: "offset + 4 + unat (be16_at data (offset + 2)) \<le> off" using le by (simp add: attr_next_def)
    then have len: "be16_at (take off data) (offset + 2) = be16_at data (offset + 2)"
      and ty: "be16_at (take off data) offset = be16_at data offset"
      by (simp_all add: be16_at_def)
    with le4 have same: "attr_at (take off data) offset = attr_at data offset" "attr_next (take off data) offset = ?o"
      unfolding attr_at_def attr_next_def len ty by (simp_all add: drop_take min_def)
    have "decode_attrs (take off data) offset off False acc =
        decode_attrs (take off data) ?o off False (acc @ [attr_at data offset])"
      using le4 False by (subst decode_attrs_step) (simp_all add: same len ty del: add_2_eq_Suc')
    with * show ?thesis
      by (intro exI [of _ before] exI [of _ mi] exI [of _ fps]) simp
  qed
qed

lemma drop_eq_nth:
  assumes "drop n xs = drop n ys" "length xs = length ys" "n \<le> i" "i < length xs"
  shows "xs ! i = ys ! i"
  using arg_cong [OF assms(1), of "\<lambda>l. l ! (i - n)"] assms(2-) by simp

lemma decode_attrs_cong:
  assumes "drop offset data = drop offset data'" "length data = length data'" "limit \<le> length data"
  shows "decode_attrs data offset limit seen acc = decode_attrs data' offset limit seen acc"
  using assms
proof (induction "limit - offset" arbitrary: offset seen acc rule: less_induct)
  case less
  show ?case
  proof (cases "offset + 4 \<le> limit")
    case True
    have at: "drop (offset + k) data = drop (offset + k) data'" for k
      using arg_cong [OF less.prems(1), of "drop k"] by (simp add: add.commute)
    have same: "be16_at data offset = be16_at data' offset" "be16_at data (offset + 2) = be16_at data' (offset + 2)"
      using drop_eq_nth [OF less.prems(1,2)] True less.prems(3) by (simp_all add: be16_at_def)
    have step: "attr_next data offset = attr_next data' offset" "attr_at data offset = attr_at data' offset"
      unfolding attr_next_def attr_at_def same at by simp_all
    obtain k where k: "attr_next data' offset = offset + k" "0 < k"
      using less_imp_add_positive [OF attr_next_gt] by metis
    have "decode_attrs data (offset + k) limit seen' acc' = decode_attrs data' (offset + k) limit seen' acc'"
      for seen' acc'
      using True at [of k] less.prems(2,3) k(2) by (intro less.hyps) auto
    then show ?thesis
      unfolding decode_attrs_step [OF True] step same k(1) by simp
  next
    case False
    then show ?thesis by (simp add: decode_attrs.simps [of data offset] decode_attrs.simps [of data' offset])
  qed
qed

text \<open>The bytes the HMAC of a message is computed over.\<close>

definition integrity_input :: "bytes \<Rightarrow> bytes" where
  "integrity_input raw =
     (let off = the (find_attribute_offset raw (attr_to_u16 MessageIntegrity))
      in take 2 raw @ to_be 2 (of_nat (off + 4) :: u16) @ drop 4 (take off raw))"

lemma verify_integrityD:
  assumes "verify_integrity S raw key"
  shows "\<exists>off. find_attribute_offset raw (attr_to_u16 MessageIntegrity) = Some off \<and> 20 \<le> off
    \<and> off + 24 \<le> length raw \<and> length (integrity_input raw) = off
    \<and> take 20 (drop (off + 4) raw) = S key (integrity_input raw)"
proof -
  from assms obtain off where off: "find_attribute_offset raw (attr_to_u16 MessageIntegrity) = Some off"
    by (auto simp: verify_integrity_def split: option.splits)
  with find_from_ge have ge: "20 \<le> off" by (auto simp: find_attribute_offset_def STUN_HEADER_SIZE_def)
  then have "off - 20 + 24 = off + 4" by simp
  with assms off ge show ?thesis
    by (auto simp: verify_integrity_def STUN_HEADER_SIZE_def constant_time_eq_def Let_def integrity_input_def
        add.commute split: if_splits)
qed

lemma stun_decode_Inr:
  assumes "stun_decode raw = Inr m"
  shows "20 \<le> length raw \<and> msg_from_u16 (be16_at raw 0) = Some (msg_type m) \<and> transaction_id m = take 12 (drop 8 raw)
    \<and> decode_attrs raw 20 (length raw) False [] = Inr (attributes m)"
  using assms
  by (auto simp: stun_decode_def STUN_HEADER_SIZE_def Let_def split: if_splits option.splits sum.splits)

text \<open>Type, transaction and attributes before the trailers are a function of the covered bytes.\<close>

lemma covered_view:
  assumes dec: "stun_decode raw = Inr m"
    and off: "find_attribute_offset raw (attr_to_u16 MessageIntegrity) = Some off" "off + 24 \<le> length raw"
      "20 \<le> off"
  shows "\<exists>before mi fps. attributes m = before @ mi # fps \<and> is_trailer mi \<and> (\<forall>a \<in> set fps. is_trailer a)
    \<and> decode_attrs (integrity_input raw) 20 off False [] = Inr before
    \<and> msg_from_u16 (be16_at (integrity_input raw) 0) = Some (msg_type m)
    \<and> transaction_id m = take 12 (drop 8 (integrity_input raw))"
proof -
  let ?in = "integrity_input raw"
  have inp: "?in = take 2 raw @ to_be 2 (of_nat (off + 4) :: u16) @ drop 4 (take off raw)"
    by (simp add: integrity_input_def off(1))
  note d = stun_decode_Inr [OF dec]
  from d off(1) decode_attrs_prefix [of raw 20 off "[]"] obtain before mi fps where
    *: "attributes m = before @ mi # fps" "attr_type mi = attr_to_u16 MessageIntegrity"
    "\<forall>a \<in> set fps. attr_type a = attr_to_u16 Fingerprint"
    "decode_attrs (take off raw) 20 off False [] = Inr before"
    by (auto simp: find_attribute_offset_def STUN_HEADER_SIZE_def)
  have len: "length ?in = off" using off by (simp add: inp)
  have tail: "drop (4 + k) ?in = drop (4 + k) (take off raw)" for k using off by (simp add: inp add.commute)
  from tail [of 16] have "decode_attrs ?in 20 off False [] = decode_attrs (take off raw) 20 off False []"
    using len off by (intro decode_attrs_cong) auto
  moreover have "be16_at ?in 0 = be16_at raw 0" using off by (simp add: inp be16_at_def nth_append)
  moreover have "take 12 (drop 8 ?in) = take 12 (drop 8 raw)"
    using tail [of 4] off by (simp add: drop_take)
  ultimately show ?thesis using * d by (auto simp: is_trailer_def)
qed

lemma integrity_input_encoded:
  assumes enc: "encodable m" and S: "\<And>k x. length (S k x) = 20"
  shows "integrity_input (encode_with_integrity S crc key m) = stun_header m (length (body m) + 24) @ body m"
proof -
  let ?n = "length (body m) + 32"
  let ?mi = "integrity_attr S key (stun_header m (length (body m) + 24) @ body m)"
  let ?fp = "fingerprint_attr crc (stun_header m ?n @ body m @ encode_attribute ?mi)"
  let ?r = "encode_attribute ?mi @ encode_attribute ?fp"
  from enc have tid: "length (transaction_id m) = 12" by (simp add: encodable_def)
  have raw: "encode_with_integrity S crc key m = stun_header m ?n @ body m @ ?r"
    unfolding encode_with_integrity_eq [of m S crc key, OF tid S] Let_def by simp
  have "find_attribute_offset (stun_header m ?n @ body m @ ?r) (attr_to_u16 MessageIntegrity)
      = Some (20 + length (body m))"
    using find_trailer [OF enc, of ?mi "attr_to_u16 MessageIntegrity"] S by simp
  moreover have "20 + length (body m) + 4 = length (body m) + 24" by simp
  ultimately show ?thesis
    using relength [OF tid, of ?n "body m" ?r "length (body m) + 24"]
    unfolding raw integrity_input_def Let_def by (simp only: option.sel)
qed

section \<open>Properties\<close>

text \<open>
  C20: responses and requests survive the wire. A message that fits its length fields, encoded with
  integrity and fingerprint, decodes to the same type, transaction and attributes (stale trailers
  removed, the two fresh ones appended), and both trailers verify.
\<close>

theorem stun_roundtrip:
  assumes "encodable m" and "\<And>k x. length (S k x) = 20"
  shows "\<exists>tag c. stun_decode (encode_with_integrity S crc key m) =
      Inr (m\<lparr>attributes := filter (\<lambda>a. \<not> is_trailer a) (attributes m)
        @ [\<lparr> attr_type = attr_to_u16 MessageIntegrity, attr_value = tag \<rparr>,
           \<lparr> attr_type = attr_to_u16 Fingerprint, attr_value = c \<rparr>]\<rparr>)
    \<and> verify_integrity S (encode_with_integrity S crc key m) key
    \<and> verify_fingerprint crc (encode_with_integrity S crc key m)"
  using assms by (rule decode_encode_with_integrity)

definition sample_request :: stun_message where
  "sample_request = add_attribute Username [49, 58, 97] (stun_new AllocateRequest (replicate 12 7))"

lemma sample_request_encodable: "encodable sample_request"
  by (simp add: encodable_def sample_request_def add_attribute_def stun_new_def is_trailer_def
      length_encode_attribute attr_padding_def)

theorem stun_roundtrip_witness:
  "\<exists>tag c. stun_decode (encode_with_integrity (\<lambda>k x. replicate 20 3) (\<lambda>x. 9) [1] sample_request) =
      Inr (sample_request\<lparr>attributes := filter (\<lambda>a. \<not> is_trailer a) (attributes sample_request)
        @ [\<lparr> attr_type = attr_to_u16 MessageIntegrity, attr_value = tag \<rparr>,
           \<lparr> attr_type = attr_to_u16 Fingerprint, attr_value = c \<rparr>]\<rparr>)
    \<and> verify_integrity (\<lambda>k x. replicate 20 3)
        (encode_with_integrity (\<lambda>k x. replicate 20 3) (\<lambda>x. 9) [1] sample_request) [1]
    \<and> verify_fingerprint (\<lambda>x. 9)
        (encode_with_integrity (\<lambda>k x. replicate 20 3) (\<lambda>x. 9) [1] sample_request)"
  by (rule stun_roundtrip [OF sample_request_encodable]) simp

text \<open>
  C21: nothing the server reads escapes the integrity check. When a message decodes and verifies, its
  tag is the HMAC of \<open>integrity_input\<close>, and that input alone determines the type, the transaction
  id and every attribute except the two trailers: a second accepted message over the same input
  reads the same, whatever bytes follow MESSAGE-INTEGRITY.
\<close>

theorem stun_integrity_covers:
  assumes "stun_decode raw = Inr m" and "verify_integrity S raw key"
    and "stun_decode raw' = Inr m'" and "verify_integrity S raw' key'"
    and "integrity_input raw = integrity_input raw'"
  shows "(\<exists>off. find_attribute_offset raw (attr_to_u16 MessageIntegrity) = Some off
      \<and> take 20 (drop (off + 4) raw) = S key (integrity_input raw))
    \<and> msg_type m = msg_type m' \<and> transaction_id m = transaction_id m'
    \<and> filter (\<lambda>a. \<not> is_trailer a) (attributes m) = filter (\<lambda>a. \<not> is_trailer a) (attributes m')"
proof -
  from verify_integrityD [OF assms(2)] obtain off where
    off: "find_attribute_offset raw (attr_to_u16 MessageIntegrity) = Some off" "20 \<le> off" "off + 24 \<le> length raw"
      "length (integrity_input raw) = off" "take 20 (drop (off + 4) raw) = S key (integrity_input raw)" by blast
  from verify_integrityD [OF assms(4)] assms(5) off(4) have
    off': "find_attribute_offset raw' (attr_to_u16 MessageIntegrity) = Some off" "off + 24 \<le> length raw'" by auto
  from covered_view [OF assms(1) off(1,3,2)] covered_view [OF assms(3) off' off(2)] assms(5) off(1,5) show ?thesis
    by (auto simp: filter_empty_conv)
qed

theorem stun_integrity_covers_witness:
  "\<exists>m m'. stun_decode (encode_with_integrity (\<lambda>k x. replicate 20 3) (\<lambda>x. 9) [1] sample_request) = Inr m
    \<and> stun_decode (encode_with_integrity (\<lambda>k x. replicate 20 3) (\<lambda>x. 8) [1] sample_request) = Inr m'
    \<and> msg_type m = msg_type m' \<and> transaction_id m = transaction_id m'
    \<and> filter (\<lambda>a. \<not> is_trailer a) (attributes m) = filter (\<lambda>a. \<not> is_trailer a) (attributes m')"
proof -
  let ?S = "\<lambda>(k :: bytes) (x :: bytes). replicate 20 (3 :: u8)"
  have S: "\<And>k x. length (?S k x) = 20" by simp
  note enc = decode_encode_with_integrity [of sample_request ?S, OF sample_request_encodable S]
    and inp = integrity_input_encoded [of sample_request ?S, OF sample_request_encodable S]
  from enc [of "\<lambda>x. 9" "[1]"] obtain m where
    m: "stun_decode (encode_with_integrity ?S (\<lambda>x. 9) [1] sample_request) = Inr m"
      "verify_integrity ?S (encode_with_integrity ?S (\<lambda>x. 9) [1] sample_request) [1]" by blast
  from enc [of "\<lambda>x. 8" "[1]"] obtain m' where
    m': "stun_decode (encode_with_integrity ?S (\<lambda>x. 8) [1] sample_request) = Inr m'"
      "verify_integrity ?S (encode_with_integrity ?S (\<lambda>x. 8) [1] sample_request) [1]" by blast
  from stun_integrity_covers [OF m m'] m(1) m'(1) show ?thesis by (simp add: inp)
qed

text \<open>
  C22: transport addresses survive XOR encoding: decoding an XOR address attribute in a message with
  the same transaction id gives back the IPv4 or IPv6 address and port.
\<close>

theorem stun_xor_address:
  assumes "length (transaction_id m) = 12"
  shows "decode_xor_address m (encode_xor_address m addr) = Some addr"
  using assms by (rule xor_address_roundtrip)

theorem stun_xor_address_witness:
  "decode_xor_address sample_request (encode_xor_address sample_request (socket_new (V6 77) 3478))
     = Some (socket_new (V6 77) 3478)"
  by (rule stun_xor_address) (simp add: sample_request_def add_attribute_def stun_new_def)

end
