(* ===== verification/Allocation.thy ===== *)
theory Allocation
  imports Net_Addr Rust_Std "HOL-Library.AList"
begin

text \<open>
  One TURN allocation, \<^verbatim>\<open>aurix-turn/src/allocation.rs\<close>: permissions, channel bindings, lifetime and
  byte counters. A \<^verbatim>\<open>DateTime<Utc>\<close> is its number of nanoseconds; \<open>now\<close> is the clock reading of the
  call. The socket is identified by its port; the allocation's random id is not modelled.

  The contract the request handler relies on is the locale \<open>permission_store\<close> (what a grant gives
  and what it leaves alone), interpreted on \<open>add_permission\<close> and \<open>has_permission\<close>. The invariant
  \<open>allocation_ok\<close> says that channel numbers and peers are in bijection and the tables are maps.
\<close>

section \<open>Definitions\<close>

type_synonym time = int
type_synonym app_id = u128

definition secs :: "int \<Rightarrow> int" where "secs n = n * 1000000000"

lemma secs_pos [simp]: "0 < secs n \<longleftrightarrow> 0 < n" and secs_mono [simp]: "secs m \<le> secs n \<longleftrightarrow> m \<le> n"
  by (simp_all add: secs_def)

definition PERMISSION_LIFETIME_SECS :: int where "PERMISSION_LIFETIME_SECS = 300"
definition CHANNEL_LIFETIME_SECS :: int where "CHANNEL_LIFETIME_SECS = 600"
definition MAX_PERMISSIONS :: nat where "MAX_PERMISSIONS = 64"
definition MAX_CHANNELS :: nat where "MAX_CHANNELS = 64"

datatype client_protocol = Udp | Tcp

record client_key =
  ck_addr :: socket_addr
  ck_proto :: client_protocol

record channel_binding =
  cb_number :: u16
  cb_peer :: socket_addr
  cb_expires :: time

record allocation =
  al_client :: client_key
  al_relay_addr :: socket_addr
  al_socket :: u16
  al_username :: bytes
  al_realm :: bytes
  al_permissions :: "(ip_addr \<times> time) list"
  al_channels :: "channel_binding list"
  al_expires :: time
  al_created :: time
  al_bytes_in :: u64
  al_bytes_out :: u64
  al_app :: "app_id option"
  al_metered :: bool

text \<open>\<^verbatim>\<open>parse_turn_username\<close> of \<^verbatim>\<open>aurix-common/src/crypto.rs\<close>: \<open><expiry>:<user>\<close>.\<close>

definition parse_turn_username :: "bytes \<Rightarrow> (int \<times> bytes) option" where
  "parse_turn_username username =
     (case split_once 58 username of
        None \<Rightarrow> None
      | Some (ts, user) \<Rightarrow>
          (case from_str_radix 10 ts of None \<Rightarrow> None | Some n \<Rightarrow> Some (n, user)))"

definition username_app :: "(bytes \<Rightarrow> app_id option) \<Rightarrow> bytes \<Rightarrow> app_id option" where
  "username_app parse_uuid username =
     Option.bind (parse_turn_username username) (\<lambda>(_, user).
       Option.bind (split_once 47 user) (\<lambda>(app, _). parse_uuid app))"

definition allocation_new ::
  "(bytes \<Rightarrow> app_id option) \<Rightarrow> time \<Rightarrow> client_key \<Rightarrow> socket_addr \<Rightarrow> u16 \<Rightarrow> bytes \<Rightarrow> bytes \<Rightarrow> int \<Rightarrow> bool
   \<Rightarrow> allocation" where
  "allocation_new parse_uuid now client relay_addr socket username realm lifetime_secs meter =
     \<lparr> al_client = client, al_relay_addr = relay_addr, al_socket = socket, al_username = username,
       al_realm = realm, al_permissions = [], al_channels = [], al_expires = now + secs lifetime_secs,
       al_created = now, al_bytes_in = 0, al_bytes_out = 0,
       al_app = username_app parse_uuid username, al_metered = meter \<rparr>"

text \<open>What is metered for a relayed datagram: the application and the byte count.\<close>

definition meter_len :: "allocation \<Rightarrow> nat \<Rightarrow> (app_id \<times> u64) list" where
  "meter_len a len = (case (al_metered a, al_app a) of (True, Some app) \<Rightarrow> [(app, of_nat len)] | _ \<Rightarrow> [])"

definition relayed_in :: "nat \<Rightarrow> allocation \<Rightarrow> (app_id \<times> u64) list \<times> allocation" where
  "relayed_in len a = (meter_len a len, a\<lparr>al_bytes_in := al_bytes_in a + of_nat len\<rparr>)"

definition relayed_out :: "nat \<Rightarrow> allocation \<Rightarrow> (app_id \<times> u64) list \<times> allocation" where
  "relayed_out len a = (meter_len a len, a\<lparr>al_bytes_out := al_bytes_out a + of_nat len\<rparr>)"

definition is_expired :: "time \<Rightarrow> allocation \<Rightarrow> bool" where
  "is_expired now a \<longleftrightarrow> now \<ge> al_expires a"

definition refresh :: "time \<Rightarrow> int \<Rightarrow> allocation \<Rightarrow> allocation" where
  "refresh now lifetime_secs a = a\<lparr>al_expires := now + secs lifetime_secs\<rparr>"

definition prune :: "time \<Rightarrow> allocation \<Rightarrow> allocation" where
  "prune now a =
     a\<lparr>al_permissions := filter (\<lambda>(_, e). e > now) (al_permissions a),
       al_channels := filter (\<lambda>b. cb_expires b > now) (al_channels a)\<rparr>"

definition add_permission :: "time \<Rightarrow> ip_addr \<Rightarrow> allocation \<Rightarrow> bool \<times> allocation" where
  "add_permission now ip a =
     (let a = prune now a
      in if map_of (al_permissions a) ip = None \<and> length (al_permissions a) \<ge> MAX_PERMISSIONS
         then (False, a)
         else (True, a\<lparr>al_permissions :=
                 AList.update ip (now + secs PERMISSION_LIFETIME_SECS) (al_permissions a)\<rparr>))"

definition has_permission :: "time \<Rightarrow> ip_addr \<Rightarrow> allocation \<Rightarrow> bool" where
  "has_permission now ip a =
     (case map_of (al_permissions a) ip of Some e \<Rightarrow> now < e | None \<Rightarrow> False)"

datatype channel_error = NumberBound | PeerBound | ChannelTableFull

text \<open>The conflict check of \<open>add_channel_binding\<close>, in the order of the table.\<close>

fun binding_conflict :: "u16 \<Rightarrow> socket_addr \<Rightarrow> channel_binding list \<Rightarrow> channel_error option" where
  "binding_conflict number peer [] = None"
| "binding_conflict number peer (b # bs) =
     (if cb_number b = number \<and> cb_peer b \<noteq> peer then Some NumberBound
      else if cb_peer b = peer \<and> cb_number b \<noteq> number then Some PeerBound
      else binding_conflict number peer bs)"

text \<open>Refresh the first binding with the number.\<close>

fun extend_binding :: "u16 \<Rightarrow> time \<Rightarrow> channel_binding list \<Rightarrow> channel_binding list" where
  "extend_binding number e [] = []"
| "extend_binding number e (b # bs) =
     (if cb_number b = number then b\<lparr>cb_expires := e\<rparr> # bs else b # extend_binding number e bs)"

definition add_channel_binding ::
  "time \<Rightarrow> u16 \<Rightarrow> socket_addr \<Rightarrow> allocation \<Rightarrow> (channel_error + unit) \<times> allocation" where
  "add_channel_binding now number peer a =
     (let a = prune now a; until = now + secs CHANNEL_LIFETIME_SECS;
          grant = (\<lambda>a. a\<lparr>al_permissions := AList.update (sa_ip peer)
                     (now + secs PERMISSION_LIFETIME_SECS) (al_permissions a)\<rparr>)
      in case binding_conflict number peer (al_channels a) of
           Some err \<Rightarrow> (Inl err, a)
         | None \<Rightarrow>
             (if \<exists>b \<in> set (al_channels a). cb_number b = number then
                (Inr (), grant (a\<lparr>al_channels := extend_binding number until (al_channels a)\<rparr>))
              else if length (al_channels a) \<ge> MAX_CHANNELS then (Inl ChannelTableFull, a)
              else (Inr (), grant (a\<lparr>al_channels := al_channels a
                      @ [\<lparr> cb_number = number, cb_peer = peer, cb_expires = until \<rparr>]\<rparr>))))"

definition binding_expired :: "time \<Rightarrow> channel_binding \<Rightarrow> bool" where
  "binding_expired now b \<longleftrightarrow> now \<ge> cb_expires b"

definition get_channel_binding :: "time \<Rightarrow> u16 \<Rightarrow> allocation \<Rightarrow> channel_binding option" where
  "get_channel_binding now number a =
     List.find (\<lambda>b. cb_number b = number \<and> \<not> binding_expired now b) (al_channels a)"

definition get_channel_for_peer :: "time \<Rightarrow> socket_addr \<Rightarrow> allocation \<Rightarrow> u16 option" where
  "get_channel_for_peer now peer a =
     map_option cb_number
       (List.find (\<lambda>b. cb_peer b = peer \<and> \<not> binding_expired now b) (al_channels a))"

text \<open>
  The loop \<^verbatim>\<open>peers.iter().all(|p| alloc.add_permission(p.ip()))\<close> of the CreatePermission handler, over
  any grant operation: it stops at the first refusal.
\<close>

fun grant_all :: "(time \<Rightarrow> 'ip \<Rightarrow> 'a \<Rightarrow> bool \<times> 'a) \<Rightarrow> time \<Rightarrow> 'ip list \<Rightarrow> 'a \<Rightarrow> bool \<times> 'a" where
  "grant_all grant now [] a = (True, a)"
| "grant_all grant now (ip # ips) a =
     (let (granted, a) = grant now ip a in if granted then grant_all grant now ips a else (False, a))"

section \<open>The permission contract\<close>

locale permission_store =
  fixes ok :: "'a \<Rightarrow> bool"
    and permits :: "time \<Rightarrow> 'ip \<Rightarrow> 'a \<Rightarrow> bool"
    and grant :: "time \<Rightarrow> 'ip \<Rightarrow> 'a \<Rightarrow> bool \<times> 'a"
    and life :: time
  assumes grant_ok: "ok a \<Longrightarrow> ok (snd (grant now ip a))"
    and grant_self: "ok a \<Longrightarrow> fst (grant now ip a) \<Longrightarrow> now \<le> t \<Longrightarrow>
      permits t ip (snd (grant now ip a)) \<longleftrightarrow> t < now + life"
    and grant_other: "ok a \<Longrightarrow> ip' \<noteq> ip \<or> \<not> fst (grant now ip a) \<Longrightarrow> now \<le> t \<Longrightarrow>
      permits t ip' (snd (grant now ip a)) = permits t ip' a"
begin

lemma grant_all_ok: "ok a \<Longrightarrow> ok (snd (grant_all grant now ips a))"
proof (induction ips arbitrary: a)
  case (Cons ip ips)
  with grant_ok [of a now ip] show ?case by (auto simp: Let_def case_prod_beta)
qed simp

lemma grant_all_permits:
  "ok a \<Longrightarrow> fst (grant_all grant now ips a) \<Longrightarrow> now \<le> t \<Longrightarrow>
     permits t ip (snd (grant_all grant now ips a))
     \<longleftrightarrow> (if ip \<in> set ips then t < now + life else permits t ip a)"
proof (induction ips arbitrary: a)
  case (Cons x ips)
  then have g: "fst (grant now x a)" by (auto simp: Let_def case_prod_beta split: if_splits)
  with Cons.prems have "permits t ip (snd (grant_all grant now ips (snd (grant now x a))))
      \<longleftrightarrow> (if ip \<in> set ips then t < now + life else permits t ip (snd (grant now x a)))"
    by (intro Cons.IH grant_ok) (auto simp: Let_def case_prod_beta)
  with g Cons.prems grant_self [of a now x t] grant_other [of a ip x now t] show ?case
    by (auto simp: Let_def case_prod_beta)
qed simp

lemma grant_all_only:
  "ok a \<Longrightarrow> now \<le> t \<Longrightarrow> ip \<notin> set ips \<Longrightarrow>
     permits t ip (snd (grant_all grant now ips a)) = permits t ip a"
proof (induction ips arbitrary: a)
  case (Cons x ips)
  with grant_ok [of a now x] grant_other [of a ip x now t] show ?case
    by (auto simp: Let_def case_prod_beta)
qed simp

end

section \<open>The invariant\<close>

definition allocation_ok :: "allocation \<Rightarrow> bool" where
  "allocation_ok a \<longleftrightarrow> distinct (map fst (al_permissions a)) \<and> distinct (map cb_number (al_channels a))
     \<and> distinct (map cb_peer (al_channels a)) \<and> length (al_channels a) \<le> MAX_CHANNELS"

lemma allocation_new_ok [simp]: "allocation_ok (allocation_new pu now c r p u rl l m)"
  by (simp add: allocation_ok_def allocation_new_def)

lemma counters_ok [simp]:
  "allocation_ok (snd (relayed_in n a)) = allocation_ok a"
  "allocation_ok (snd (relayed_out n a)) = allocation_ok a"
  "allocation_ok (refresh now l a) = allocation_ok a"
  by (simp_all add: allocation_ok_def relayed_in_def relayed_out_def refresh_def)

lemma prune_ok [simp]: "allocation_ok a \<Longrightarrow> allocation_ok (prune now a)"
  using le_trans [OF length_filter_le, of "al_channels a" MAX_CHANNELS]
  by (simp add: allocation_ok_def prune_def distinct_map_filter)

lemma update_permissions_ok:
  "allocation_ok a \<Longrightarrow> allocation_ok (a\<lparr>al_permissions := AList.update ip e (al_permissions a)\<rparr>)"
  by (simp add: allocation_ok_def distinct_update)

lemma add_permission_ok: "allocation_ok a \<Longrightarrow> allocation_ok (snd (add_permission now ip a))"
  using prune_ok [of a now] update_permissions_ok [of "prune now a"]
  by (simp add: add_permission_def Let_def)

lemma binding_conflict_None:
  "binding_conflict number peer bs = None \<longleftrightarrow> (\<forall>b \<in> set bs. cb_number b = number \<longleftrightarrow> cb_peer b = peer)"
proof (induction bs)
  case (Cons b bs)
  then show ?case by (cases "cb_number b = number"; cases "cb_peer b = peer") simp_all
qed simp

lemma extend_binding_maps [simp]:
  "map cb_number (extend_binding number e bs) = map cb_number bs"
  "map cb_peer (extend_binding number e bs) = map cb_peer bs"
  "length (extend_binding number e bs) = length bs"
  by (induction bs) auto

lemma add_channel_binding_ok:
  assumes "allocation_ok a"
  shows "allocation_ok (snd (add_channel_binding now number peer a))"
proof -
  from assms have p: "allocation_ok (prune now a)" by simp
  show ?thesis
  proof (cases "binding_conflict number peer (al_channels (prune now a))")
    case None
    then have "\<forall>b \<in> set (al_channels (prune now a)). cb_number b = number \<longleftrightarrow> cb_peer b = peer"
      by (simp add: binding_conflict_None)
    then have "(\<exists>b \<in> set (al_channels (prune now a)). cb_number b = number) \<or>
        number \<notin> cb_number ` set (al_channels (prune now a)) \<and> peer \<notin> cb_peer ` set (al_channels (prune now a))"
      by blast
    then show ?thesis
    proof
      assume "\<exists>b \<in> set (al_channels (prune now a)). cb_number b = number"
      with p None show ?thesis
        by (simp add: add_channel_binding_def Let_def allocation_ok_def distinct_update)
    next
      assume "number \<notin> cb_number ` set (al_channels (prune now a)) \<and> peer \<notin> cb_peer ` set (al_channels (prune now a))"
      with p None show ?thesis
        by (simp add: add_channel_binding_def Let_def allocation_ok_def distinct_update) 
    qed
  next
    case (Some err)
    with p show ?thesis by (simp add: add_channel_binding_def Let_def)
  qed
qed

lemma map_of_filter_snd:
  "distinct (map fst xs) \<Longrightarrow> map_of (filter (\<lambda>(_, e). P e) xs) k =
     (case map_of xs k of Some e \<Rightarrow> if P e then Some e else None | None \<Rightarrow> None)"
proof (induction xs)
  case (Cons x xs)
  obtain k' e where x: "x = (k', e)" by (cases x)
  with Cons.prems have "map_of xs k' = None" by (simp add: map_of_eq_None_iff)
  with Cons x show ?case by (cases "k = k'") simp_all
qed simp

lemma has_permission_prune:
  assumes "allocation_ok a" "now \<le> t"
  shows "has_permission t ip (prune now a) = has_permission t ip a"
proof -
  from assms(1) have "distinct (map fst (al_permissions a))" by (simp add: allocation_ok_def)
  from map_of_filter_snd [OF this, of "\<lambda>e. now < e" ip] assms(2) show ?thesis
    by (auto simp: has_permission_def prune_def split: option.splits)
qed

lemma has_permission_update:
  "has_permission t ip (a\<lparr>al_permissions := AList.update k e (al_permissions a)\<rparr>)
     = (if ip = k then t < e else has_permission t ip a)"
  by (simp add: has_permission_def update_conv')

interpretation perms: permission_store allocation_ok has_permission add_permission "secs PERMISSION_LIFETIME_SECS"
proof
  fix a :: allocation and now t ip ip'
  assume ok: "allocation_ok a"
  show "allocation_ok (snd (add_permission now ip a))" using ok by (rule add_permission_ok)
  show "has_permission t ip (snd (add_permission now ip a)) \<longleftrightarrow> t < now + secs PERMISSION_LIFETIME_SECS"
    if "fst (add_permission now ip a)" "now \<le> t"
    using that by (auto simp: add_permission_def Let_def has_permission_update split: if_splits)
  show "has_permission t ip' (snd (add_permission now ip a)) = has_permission t ip' a"
    if "ip' \<noteq> ip \<or> \<not> fst (add_permission now ip a)" "now \<le> t"
    using that has_permission_prune [OF ok, of now t ip']
    by (auto simp: add_permission_def Let_def has_permission_update split: if_splits)
qed

section \<open>Channel bindings\<close>

lemma find_filter: "(\<And>x. P x \<Longrightarrow> Q x) \<Longrightarrow> List.find P (filter Q xs) = List.find P xs"
  by (induction xs) auto

lemma find_unique:
  "distinct (map f xs) \<Longrightarrow> x \<in> set xs \<Longrightarrow> P x \<Longrightarrow> (\<And>y. P y \<Longrightarrow> f y = f x) \<Longrightarrow> List.find P xs = Some x"
proof (induction xs)
  case (Cons y ys)
  show ?case
  proof (cases "P y")
    case True
    then have eq: "f y = f x" by (rule Cons.prems(4))
    have "x \<notin> set ys"
    proof
      assume "x \<in> set ys"
      then have "f x \<in> f ` set ys" by (rule imageI)
      with Cons.prems(1) eq show False by simp
    qed
    with Cons.prems(2) True show ?thesis by simp
  next
    case False
    with Cons.prems(1-3) have "List.find P ys = Some x" by (intro Cons.IH Cons.prems(4)) auto
    with False show ?thesis by simp
  qed
qed simp

lemma extend_binding_member:
  "\<lbrakk>b \<in> set bs; cb_number b = number; distinct (map cb_number bs)\<rbrakk> \<Longrightarrow>
     b\<lparr>cb_expires := e\<rparr> \<in> set (extend_binding number e bs)"
proof (induction bs)
  case (Cons c bs)
  show ?case
  proof (cases "b = c")
    case False
    with Cons.prems have "b \<in> set bs" by simp
    then have "cb_number b \<in> cb_number ` set bs" by (rule imageI)
    with Cons.prems have "cb_number c \<noteq> number" by auto
    with Cons \<open>b \<in> set bs\<close> show ?thesis by simp
  qed (use Cons.prems in simp)
qed simp

lemma add_channel_binding_Inr:
  assumes ok: "allocation_ok a" and add: "add_channel_binding now number peer a = (Inr (), a')"
  shows "\<lparr> cb_number = number, cb_peer = peer, cb_expires = now + secs CHANNEL_LIFETIME_SECS \<rparr> \<in> set (al_channels a')
    \<and> al_permissions a' = AList.update (sa_ip peer) (now + secs PERMISSION_LIFETIME_SECS) (al_permissions (prune now a))"
proof -
  let ?bs = "al_channels (prune now a)" and ?e = "now + secs CHANNEL_LIFETIME_SECS"
  from add have conf: "binding_conflict number peer ?bs = None"
    by (auto simp: add_channel_binding_def Let_def split: option.splits)
  show ?thesis
  proof (cases "\<exists>b \<in> set ?bs. cb_number b = number")
    case True
    then obtain b where b: "b \<in> set ?bs" "cb_number b = number" by blast
    with conf have "cb_peer b = peer" by (simp add: binding_conflict_None)
    then have "b\<lparr>cb_expires := ?e\<rparr> = \<lparr> cb_number = number, cb_peer = peer, cb_expires = ?e \<rparr>"
      using b(2) by (cases b) simp
    moreover have "b\<lparr>cb_expires := ?e\<rparr> \<in> set (extend_binding number ?e ?bs)"
      using b prune_ok [OF ok, of now] by (intro extend_binding_member) (simp_all add: allocation_ok_def)
    ultimately show ?thesis using add conf True by (auto simp: add_channel_binding_def Let_def)
  next
    case False
    with add conf show ?thesis by (auto simp: add_channel_binding_def Let_def split: if_splits)
  qed
qed

section \<open>Properties\<close>

text \<open>
  C39: a channel binding is a two-way map. After a successful bind, for the next 600 seconds the number
  leads to the peer and the peer to the number, and for the next 300 seconds the peer's address has a
  permission; the tables stay consistent.
\<close>

theorem channel_binding_spec:
  assumes "allocation_ok a" and "add_channel_binding now number peer a = (Inr (), a')"
    and "now \<le> t" and "t < now + secs CHANNEL_LIFETIME_SECS"
  shows "allocation_ok a' \<and> map_option cb_peer (get_channel_binding t number a') = Some peer
    \<and> get_channel_for_peer t peer a' = Some number
    \<and> (has_permission t (sa_ip peer) a' \<longleftrightarrow> t < now + secs PERMISSION_LIFETIME_SECS)"
proof -
  let ?b = "\<lparr> cb_number = number, cb_peer = peer, cb_expires = now + secs CHANNEL_LIFETIME_SECS \<rparr>"
  from add_channel_binding_ok [OF assms(1), of now number peer] assms(2) have ok: "allocation_ok a'" by simp
  from add_channel_binding_Inr [OF assms(1,2)] have b: "?b \<in> set (al_channels a')"
    and p: "al_permissions a' = AList.update (sa_ip peer) (now + secs PERMISSION_LIFETIME_SECS) (al_permissions (prune now a))"
    by auto
  have "get_channel_binding t number a' = Some ?b"
    unfolding get_channel_binding_def using ok b assms(4)
    by (intro find_unique [of cb_number]) (auto simp: allocation_ok_def binding_expired_def)
  moreover have "get_channel_for_peer t peer a' = Some number"
  proof -
    have "List.find (\<lambda>b. cb_peer b = peer \<and> \<not> binding_expired t b) (al_channels a') = Some ?b"
      using ok b assms(4) by (intro find_unique [of cb_peer]) (auto simp: allocation_ok_def binding_expired_def)
    then show ?thesis by (simp add: get_channel_for_peer_def)
  qed
  moreover have "has_permission t (sa_ip peer) a' \<longleftrightarrow> t < now + secs PERMISSION_LIFETIME_SECS"
    by (simp add: has_permission_def p update_conv')
  ultimately show ?thesis using ok by simp
qed

definition sample_allocation :: allocation where
  "sample_allocation = allocation_new (\<lambda>_. None) 0 \<lparr> ck_addr = socket_new (V4 1) 5000, ck_proto = Udp \<rparr>
     (socket_new (V4 9) 49152) 49152 [49, 58, 97] [114] 600 False"

theorem channel_binding_spec_witness:
  "\<exists>a'. add_channel_binding 5 0x4001 (socket_new (V4 7) 80) sample_allocation = (Inr (), a')
    \<and> allocation_ok a' \<and> map_option cb_peer (get_channel_binding 6 0x4001 a') = Some (socket_new (V4 7) 80)
    \<and> get_channel_for_peer 6 (socket_new (V4 7) 80) a' = Some 0x4001
    \<and> (has_permission 6 (sa_ip (socket_new (V4 7) 80)) a' \<longleftrightarrow> (6 :: int) < 5 + secs PERMISSION_LIFETIME_SECS)"
proof -
  obtain a' where a': "add_channel_binding 5 0x4001 (socket_new (V4 7) 80) sample_allocation = (Inr (), a')"
    by (auto simp: add_channel_binding_def sample_allocation_def allocation_new_def prune_def MAX_CHANNELS_def)
  have "allocation_ok sample_allocation" by (simp add: sample_allocation_def)
  from channel_binding_spec [OF this a', of 6] a' show ?thesis
    by (simp add: CHANNEL_LIFETIME_SECS_def secs_def)
qed

text \<open>
  C40: the permission limit is not a limit. When the permission table is full (64 or more live entries),
  CreatePermission for a further peer is refused, but ChannelBind for the same peer is accepted as long
  as a channel is free, and installs one more permission; nothing bounds the table.
\<close>

theorem permission_limit_bypassed:
  assumes "MAX_PERMISSIONS \<le> length (al_permissions (prune now a))"
    and "sa_ip peer \<notin> fst ` set (al_permissions (prune now a))"
    and "\<forall>b \<in> set (al_channels (prune now a)). cb_number b \<noteq> number \<and> cb_peer b \<noteq> peer"
    and "length (al_channels (prune now a)) < MAX_CHANNELS"
  shows "\<not> fst (add_permission now (sa_ip peer) a)
    \<and> (\<exists>a'. add_channel_binding now number peer a = (Inr (), a')
          \<and> length (al_permissions a') = Suc (length (al_permissions (prune now a))))"
proof -
  from assms(3) have "binding_conflict number peer (al_channels (prune now a)) = None"
    by (simp add: binding_conflict_None)
  moreover have "length (AList.update k e xs) = Suc (length xs)" if "k \<notin> fst ` set xs"
    for k :: ip_addr and e :: time and xs
    using that by (induction xs) auto
  ultimately show ?thesis
    using assms by (simp add: add_permission_def add_channel_binding_def Let_def map_of_eq_None_iff)
qed

theorem permission_limit_bypassed_witness:
  "let a = sample_allocation\<lparr>al_permissions := map (\<lambda>i. (V4 (of_nat i), secs 300)) [0..<64]\<rparr>
   in \<not> fst (add_permission 0 (sa_ip (socket_new (V4 99) 80)) a)
    \<and> (\<exists>a'. add_channel_binding 0 0x4000 (socket_new (V4 99) 80) a = (Inr (), a')
          \<and> length (al_permissions a') = Suc (length (al_permissions (prune 0 a))))"
proof -
  let ?a = "sample_allocation\<lparr>al_permissions := map (\<lambda>i. (V4 (of_nat i), secs 300)) [0..<64]\<rparr>"
  have keep: "prune 0 ?a = ?a"
    by (simp add: prune_def sample_allocation_def allocation_new_def filter_id_conv)
  have "(99 :: u32) \<noteq> of_nat i" if "i < 64" for i
  proof
    assume "(99 :: u32) = of_nat i"
    then have "unat (99 :: u32) = unat (of_nat i :: u32)" by simp
    with that show False by (simp add: unat_of_nat)
  qed
  then have "\<not> fst (add_permission 0 (sa_ip (socket_new (V4 99) 80)) ?a)
    \<and> (\<exists>a'. add_channel_binding 0 0x4000 (socket_new (V4 99) 80) ?a = (Inr (), a')
          \<and> length (al_permissions a') = Suc (length (al_permissions (prune 0 ?a))))"
    unfolding keep
    by (intro permission_limit_bypassed [of 0 ?a, unfolded keep])
      (auto simp: MAX_PERMISSIONS_def MAX_CHANNELS_def sample_allocation_def allocation_new_def)
  then show ?thesis by (simp add: Let_def)
qed

end
