(* ===== verification/Turn_Auth.thy ===== *)
theory Turn_Auth
  imports Stun Allocation "HOL-Library.Signed_Division"
begin

text \<open>
  Long-term credentials and nonces of the TURN server: the credential functions of
  \<^verbatim>\<open>aurix-common/src/crypto.rs\<close>, and \<^verbatim>\<open>nonce\<close>, \<^verbatim>\<open>nonce_is_valid\<close> and \<^verbatim>\<open>authenticate\<close> of
  \<^verbatim>\<open>aurix-turn/src/turn.rs\<close>. The digests, the base64 encoders, the CRC and UUID parsing are the
  parameters collected in \<open>turn_crypto\<close>; \<open>crypto_ok\<close> names what is known of them.

  The lemmas characterise the accepted nonces exactly, show that a request answered with the server's
  own credentials and nonce is authenticated, and what an authenticated request proves.
\<close>

section \<open>Definitions\<close>

record turn_crypto =
  tc_sha1 :: mac
  tc_sha256 :: mac
  tc_md5 :: "bytes \<Rightarrow> bytes"
  tc_b64 :: "bytes \<Rightarrow> bytes"
  tc_b64url :: "bytes \<Rightarrow> bytes"
  tc_crc :: "bytes \<Rightarrow> u32"
  tc_uuid :: "bytes \<Rightarrow> app_id option"

text \<open>
  Documented facts of the libraries: digest lengths, and that URL-safe base64 without padding uses
  only ASCII letters, digits, \<^verbatim>\<open>-\<close> and \<^verbatim>\<open>_\<close>.
\<close>

definition crypto_ok :: "turn_crypto \<Rightarrow> bool" where
  "crypto_ok C \<longleftrightarrow> (\<forall>k m. length (tc_sha1 C k m) = 20)
     \<and> (\<forall>m b. b \<in> set (tc_b64url C m) \<longrightarrow> b < 0x80)"

definition turn_password_for_username :: "turn_crypto \<Rightarrow> bytes \<Rightarrow> bytes \<Rightarrow> bytes" where
  "turn_password_for_username C secret username = tc_b64 C (tc_sha1 C secret username)"

record turn_credentials =
  cred_username :: bytes
  cred_password :: bytes
  cred_expires :: int

definition generate_turn_credentials ::
  "turn_crypto \<Rightarrow> bytes \<Rightarrow> bytes \<Rightarrow> int \<Rightarrow> int \<Rightarrow> turn_credentials" where
  "generate_turn_credentials C secret user ttl_secs now_unix =
     (let expires_at = now_unix + ttl_secs;
          username = i64_to_string expires_at @ [58] @ user
      in \<lparr> cred_username = username,
           cred_password = turn_password_for_username C secret username,
           cred_expires = expires_at \<rparr>)"

definition stun_long_term_key :: "turn_crypto \<Rightarrow> bytes \<Rightarrow> bytes \<Rightarrow> bytes \<Rightarrow> bytes" where
  "stun_long_term_key C username realm password =
     tc_md5 C (username @ [58] @ realm @ [58] @ password)"

definition NONCE_LIFETIME_SECS :: int where "NONCE_LIFETIME_SECS = 3600"

definition timestamp :: "time \<Rightarrow> int" where
  "timestamp now = now div 1000000000"

definition nonce :: "turn_crypto \<Rightarrow> bytes \<Rightarrow> int \<Rightarrow> bytes" where
  "nonce C secret now_unix =
     (let bucket = now_unix sdiv NONCE_LIFETIME_SECS;
          tag = hmac_sha256 (tc_sha256 C) secret [ascii ''turn-nonce'', to_be 8 (of_int bucket :: u64)]
      in i64_to_hex bucket @ [46] @ tc_b64url C (take 12 tag))"

definition nonce_is_valid :: "turn_crypto \<Rightarrow> bytes \<Rightarrow> bytes \<Rightarrow> int \<Rightarrow> bool" where
  "nonce_is_valid C secret n now_unix =
     (case split_once 46 n of
        None \<Rightarrow> False
      | Some (bucket_hex, _) \<Rightarrow>
          (case from_str_radix 16 bucket_hex of
             None \<Rightarrow> False
           | Some bucket \<Rightarrow>
               (let current = now_unix sdiv NONCE_LIFETIME_SECS
                in if bucket \<noteq> current \<and> bucket \<noteq> current - 1 then False
                   else constant_time_eq (nonce C secret (bucket * NONCE_LIFETIME_SECS)) n)))"

datatype auth_failure = Unauthorized | StaleNonce | BadRequest

record authenticated =
  auth_username :: bytes
  auth_key :: bytes

definition authenticate ::
  "turn_crypto \<Rightarrow> bytes \<Rightarrow> bytes \<Rightarrow> time \<Rightarrow> stun_message \<Rightarrow> bytes \<Rightarrow> auth_failure + authenticated" where
  "authenticate C self_realm secret clock msg raw =
     (let now = timestamp clock
      in if get_attribute MessageIntegrity msg = None then Inl Unauthorized
         else case get_string Username msg of
           None \<Rightarrow> Inl BadRequest
         | Some username \<Rightarrow> (case get_string Realm msg of
             None \<Rightarrow> Inl BadRequest
           | Some realm \<Rightarrow> (case get_string Nonce msg of
               None \<Rightarrow> Inl BadRequest
             | Some n \<Rightarrow>
                 (if length username > 512 \<or> realm \<noteq> self_realm then Inl Unauthorized
                  else if \<not> nonce_is_valid C secret n now then Inl StaleNonce
                  else case parse_turn_username username of
                    None \<Rightarrow> Inl Unauthorized
                  | Some (expiry, user) \<Rightarrow>
                      (if user = [] \<or> expiry < now then Inl Unauthorized
                       else
                         (let password = turn_password_for_username C secret username;
                              key = stun_long_term_key C username self_realm password
                          in if \<not> verify_integrity (tc_sha1 C) raw key then Inl Unauthorized
                             else Inr \<lparr> auth_username = username, auth_key = key \<rparr>))))))"

section \<open>Nonces\<close>

lemma sdiv_nonneg: "0 \<le> a \<Longrightarrow> 0 < b \<Longrightarrow> a sdiv b = a div (b :: int)"
  by (simp add: signed_divide_int_def sgn_if)

lemma hex_no_dot: "46 \<notin> set (i64_to_hex n)"
  using print_digits_chars [of 16 "unat (of_int n :: u64)"] by (force simp: i64_to_hex_def)

lemma split_nonce:
  "split_once 46 (nonce C secret t) = Some (i64_to_hex (t sdiv NONCE_LIFETIME_SECS),
     tc_b64url C (take 12 (hmac_sha256 (tc_sha256 C) secret
       [ascii ''turn-nonce'', to_be 8 (of_int (t sdiv NONCE_LIFETIME_SECS) :: u64)])))"
  using split_once_append [OF hex_no_dot] by (simp add: nonce_def Let_def)

lemma nonce_bucket:
  "0 \<le> t \<Longrightarrow> nonce C secret ((t sdiv NONCE_LIFETIME_SECS) * NONCE_LIFETIME_SECS) = nonce C secret t"
  by (simp add: nonce_def NONCE_LIFETIME_SECS_def sdiv_nonneg)

lemma i64_ok_bucket: "0 \<le> t \<Longrightarrow> t < 2 ^ 63 \<Longrightarrow> i64_ok (t sdiv NONCE_LIFETIME_SECS)"
  by (auto simp: i64_ok_def NONCE_LIFETIME_SECS_def sdiv_nonneg)

lemma nonce_is_valid_exact:
  assumes "3600 \<le> now" "now < 2 ^ 63"
  shows "nonce_is_valid C secret n now \<longleftrightarrow> n = nonce C secret now \<or> n = nonce C secret (now - 3600)"
proof -
  let ?cur = "now sdiv NONCE_LIFETIME_SECS"
  have prev: "(now - 3600) sdiv NONCE_LIFETIME_SECS = ?cur - 1"
    using assms by (simp add: NONCE_LIFETIME_SECS_def sdiv_nonneg)
  have mine: "nonce_is_valid C secret (nonce C secret t) now"
    if "0 \<le> t" "t < 2 ^ 63" "t sdiv NONCE_LIFETIME_SECS \<in> {?cur, ?cur - 1}" for t
    using that i64_hex_roundtrip [OF _ i64_ok_bucket [OF that(1,2)]] nonce_bucket [OF that(1), of C secret]
    by (auto simp: nonce_is_valid_def split_nonce constant_time_eq_def Let_def sdiv_nonneg NONCE_LIFETIME_SECS_def)
  show ?thesis
  proof
    assume valid: "nonce_is_valid C secret n now"
    have "\<exists>b. (b = ?cur \<or> b = ?cur - 1) \<and> nonce C secret (b * NONCE_LIFETIME_SECS) = n"
    proof (cases "split_once 46 n")
      case (Some p)
      then obtain hex r where p: "split_once 46 n = Some (hex, r)" by (cases p) auto
      show ?thesis
      proof (cases "from_str_radix 16 hex")
        case (Some b)
        with valid p show ?thesis
          by (intro exI [of _ b]) (simp add: nonce_is_valid_def Let_def constant_time_eq_def split: if_splits)
      qed (use valid p in \<open>simp add: nonce_is_valid_def\<close>)
    qed (use valid in \<open>simp add: nonce_is_valid_def\<close>)
    then obtain b where b: "b = ?cur \<or> b = ?cur - 1" and n: "n = nonce C secret (b * NONCE_LIFETIME_SECS)"
      by auto
    from b show "n = nonce C secret now \<or> n = nonce C secret (now - 3600)"
      using n nonce_bucket [of now C secret] nonce_bucket [of "now - 3600" C secret] assms by (auto simp: prev)
  next
    assume "n = nonce C secret now \<or> n = nonce C secret (now - 3600)"
    then show "nonce_is_valid C secret n now"
      using mine [of now] mine [of "now - 3600"] assms by (auto simp: prev)
  qed
qed

section \<open>Authentication\<close>

lemma parse_generated:
  assumes "0 \<le> now_unix + ttl" "i64_ok (now_unix + ttl)"
  shows "parse_turn_username (cred_username (generate_turn_credentials C secret user ttl now_unix))
    = Some (now_unix + ttl, user)"
proof -
  from split_once_append [OF decimal_no_colon [OF assms(1)]] i64_string_roundtrip [OF assms] show ?thesis
    by (simp add: parse_turn_username_def generate_turn_credentials_def Let_def)
qed

lemma generated_password:
  "cred_password (generate_turn_credentials C secret user ttl t)
    = turn_password_for_username C secret (cred_username (generate_turn_credentials C secret user ttl t))"
  by (simp add: generate_turn_credentials_def Let_def)

text \<open>The trailers of an encoded message do not hide its attributes.\<close>

lemma find_non_trailer:
  "\<not> is_trailer \<lparr> attr_type = w, attr_value = v \<rparr> \<Longrightarrow>
    List.find (\<lambda>a. attr_type a = w) (filter (\<lambda>a. \<not> is_trailer a) as) = List.find (\<lambda>a. attr_type a = w) as"
  by (rule find_filter) (auto simp: is_trailer_def)

lemma find_append:
  "List.find P (xs @ ys) = (case List.find P xs of None \<Rightarrow> List.find P ys | Some x \<Rightarrow> Some x)"
  by (induction xs) auto

lemma get_attribute_signed:
  assumes "m' = m\<lparr>attributes := filter (\<lambda>a. \<not> is_trailer a) (attributes m)
      @ [\<lparr> attr_type = attr_to_u16 MessageIntegrity, attr_value = tag \<rparr>,
         \<lparr> attr_type = attr_to_u16 Fingerprint, attr_value = c \<rparr>]\<rparr>"
    and "t \<noteq> MessageIntegrity" "t \<noteq> Fingerprint"
  shows "get_attribute t m' = get_attribute t m" and "get_attribute MessageIntegrity m' \<noteq> None"
proof -
  have "\<not> is_trailer \<lparr> attr_type = attr_to_u16 t, attr_value = v \<rparr>" for v
    using assms(2,3) by (simp add: is_trailer_def)
  from find_non_trailer [OF this] show "get_attribute t m' = get_attribute t m"
    using assms by (auto simp: get_attribute_def find_append split: option.splits)
  show "get_attribute MessageIntegrity m' \<noteq> None"
    using assms(1) by (auto simp: get_attribute_def find_append split: option.splits)
qed

lemma get_string_signed:
  assumes "m' = m\<lparr>attributes := filter (\<lambda>a. \<not> is_trailer a) (attributes m)
      @ [\<lparr> attr_type = attr_to_u16 MessageIntegrity, attr_value = tag \<rparr>,
         \<lparr> attr_type = attr_to_u16 Fingerprint, attr_value = c \<rparr>]\<rparr>"
    and "t \<noteq> MessageIntegrity" "t \<noteq> Fingerprint"
  shows "get_string t m' = get_string t m"
  using get_attribute_signed(1) [OF assms] by (simp add: get_string_def)

lemma authenticate_Inr:
  "authenticate C self_realm secret clock msg raw = Inr au \<longleftrightarrow>
     get_attribute MessageIntegrity msg \<noteq> None \<and> get_string Username msg = Some (auth_username au)
     \<and> get_string Realm msg = Some self_realm \<and> length (auth_username au) \<le> 512
     \<and> (\<exists>n. get_string Nonce msg = Some n \<and> nonce_is_valid C secret n (timestamp clock))
     \<and> (\<exists>e user. parse_turn_username (auth_username au) = Some (e, user) \<and> user \<noteq> [] \<and> timestamp clock \<le> e)
     \<and> auth_key au = stun_long_term_key C (auth_username au) self_realm
         (turn_password_for_username C secret (auth_username au))
     \<and> verify_integrity (tc_sha1 C) raw (auth_key au)"
  by (cases au) (auto simp: authenticate_def Let_def split: option.splits if_splits)

lemma authenticate_signed:
  assumes ok: "crypto_ok C" and enc: "encodable m"
    and attrs: "get_string Username m = Some username" "get_string Realm m = Some realm" "get_string Nonce m = Some n"
    and valid: "length username \<le> 512" "parse_turn_username username = Some (e, user)" "user \<noteq> []"
      "timestamp clock \<le> e" "nonce_is_valid C secret n (timestamp clock)"
    and key: "key = stun_long_term_key C username realm (turn_password_for_username C secret username)"
  shows "\<exists>m'. stun_decode (encode_with_integrity (tc_sha1 C) crc key m) = Inr m'
    \<and> verify_fingerprint crc (encode_with_integrity (tc_sha1 C) crc key m)
    \<and> msg_type m' = msg_type m \<and> transaction_id m' = transaction_id m
    \<and> (\<forall>t. t \<noteq> MessageIntegrity \<longrightarrow> t \<noteq> Fingerprint \<longrightarrow> get_attribute t m' = get_attribute t m)
    \<and> authenticate C realm secret clock m' (encode_with_integrity (tc_sha1 C) crc key m)
        = Inr \<lparr> auth_username = username, auth_key = key \<rparr>"
proof -
  from ok have S: "\<And>k x. length (tc_sha1 C k x) = 20" by (simp add: crypto_ok_def)
  from decode_encode_with_integrity [of m "tc_sha1 C" crc key, OF enc S] obtain tag c where
    dec: "stun_decode (encode_with_integrity (tc_sha1 C) crc key m) =
      Inr (m\<lparr>attributes := filter (\<lambda>a. \<not> is_trailer a) (attributes m)
        @ [\<lparr> attr_type = attr_to_u16 MessageIntegrity, attr_value = tag \<rparr>,
           \<lparr> attr_type = attr_to_u16 Fingerprint, attr_value = c \<rparr>]\<rparr>)"
      and vi: "verify_integrity (tc_sha1 C) (encode_with_integrity (tc_sha1 C) crc key m) key"
      and vf: "verify_fingerprint crc (encode_with_integrity (tc_sha1 C) crc key m)" by blast
  let ?m = "m\<lparr>attributes := filter (\<lambda>a. \<not> is_trailer a) (attributes m)
        @ [\<lparr> attr_type = attr_to_u16 MessageIntegrity, attr_value = tag \<rparr>,
           \<lparr> attr_type = attr_to_u16 Fingerprint, attr_value = c \<rparr>]\<rparr>"
  have strs: "get_string t ?m = get_string t m" if "t \<noteq> MessageIntegrity" "t \<noteq> Fingerprint" for t
    by (rule get_string_signed [OF refl that])
  have "authenticate C realm secret clock ?m (encode_with_integrity (tc_sha1 C) crc key m)
      = Inr \<lparr> auth_username = username, auth_key = key \<rparr>"
    unfolding authenticate_Inr
    using attrs valid key vi strs [of Username] strs [of Realm] strs [of Nonce]
      get_attribute_signed(2) [OF refl, of Username m tag c] by simp
  with dec vf get_attribute_signed(1) [OF refl] show ?thesis by (intro exI [of _ ?m]) auto
qed

section \<open>Properties\<close>

lemma nonce_still_valid:
  assumes "0 \<le> t" "t \<le> now" "now \<le> t + 3600" "now < 2 ^ 63" "3600 \<le> now"
  shows "nonce_is_valid C secret (nonce C secret t) now"
proof -
  have "t div 3600 = now div 3600 \<or> t div 3600 = (now - 3600) div 3600"
    using assms(2,3) by linarith
  then have "nonce C secret t = nonce C secret now \<or> nonce C secret t = nonce C secret (now - 3600)"
    using assms by (auto simp: nonce_def NONCE_LIFETIME_SECS_def sdiv_nonneg)
  with assms show ?thesis by (auto simp: nonce_is_valid_exact)
qed

text \<open>
  C29: the server needs no nonce table. The nonces it accepts at a time are exactly the one it hands
  out at that time and the one it handed out an hour earlier.
\<close>

theorem turn_nonce_window:
  assumes "3600 \<le> now" and "now < 2 ^ 63"
  shows "nonce_is_valid C secret n now \<longleftrightarrow> n = nonce C secret now \<or> n = nonce C secret (now - 3600)"
  using assms by (rule nonce_is_valid_exact)

definition sample_crypto :: turn_crypto where
  "sample_crypto = \<lparr> tc_sha1 = \<lambda>k m. replicate 20 3, tc_sha256 = \<lambda>k m. replicate 32 4,
     tc_md5 = \<lambda>m. replicate 16 5, tc_b64 = \<lambda>m. [65, 61], tc_b64url = \<lambda>m. [66],
     tc_crc = \<lambda>m. 9, tc_uuid = \<lambda>m. None \<rparr>"

lemma sample_crypto_ok: "crypto_ok sample_crypto"
  by (simp add: crypto_ok_def sample_crypto_def)

theorem turn_nonce_window_witness:
  "nonce_is_valid sample_crypto [1] [50, 46, 66] 7200 \<and> \<not> nonce_is_valid sample_crypto [1] [51, 46, 66] 7200"
proof -
  have n: "nonce sample_crypto [1] 7200 = [50, 46, 66]" "nonce sample_crypto [1] (7200 - 3600) = [49, 46, 66]"
    by code_simp+
  show ?thesis
    using turn_nonce_window [of 7200 sample_crypto "[1]" "[50, 46, 66]"]
      turn_nonce_window [of 7200 sample_crypto "[1]" "[51, 46, 66]"] unfolding n by simp
qed

text \<open>
  C27: whoever follows the protocol is let in. A request carrying a username and password the server
  generated, its realm, and a nonce it issued within the last hour, protected with the long-term key,
  decodes on the server to the same type and attributes, passes the fingerprint check, and
  authenticates as that user until the credential expires.
\<close>

theorem turn_auth_complete:
  assumes "crypto_ok C" and "encodable m"
    and "cred = generate_turn_credentials C secret user ttl t0"
    and "get_string Username m = Some (cred_username cred)" and "get_string Realm m = Some realm"
    and "get_string Nonce m = Some (nonce C secret t)"
    and "user \<noteq> []" and "length (cred_username cred) \<le> 512"
    and "0 \<le> t" "t \<le> timestamp clock" "timestamp clock \<le> t + 3600" "3600 \<le> timestamp clock"
    and "timestamp clock \<le> t0 + ttl" and "t0 + ttl < 2 ^ 63"
    and "key = stun_long_term_key C (cred_username cred) realm (cred_password cred)"
  shows "\<exists>m'. stun_decode (encode_with_integrity (tc_sha1 C) crc key m) = Inr m'
    \<and> verify_fingerprint crc (encode_with_integrity (tc_sha1 C) crc key m)
    \<and> msg_type m' = msg_type m \<and> transaction_id m' = transaction_id m
    \<and> (\<forall>t. t \<noteq> MessageIntegrity \<longrightarrow> t \<noteq> Fingerprint \<longrightarrow> get_attribute t m' = get_attribute t m)
    \<and> authenticate C realm secret clock m' (encode_with_integrity (tc_sha1 C) crc key m)
        = Inr \<lparr> auth_username = cred_username cred, auth_key = key \<rparr>"
proof (rule authenticate_signed)
  show "parse_turn_username (cred_username cred) = Some (t0 + ttl, user)"
    using assms(12-14) unfolding assms(3) by (intro parse_generated) (auto simp: i64_ok_def)
  show "nonce_is_valid C secret (nonce C secret t) (timestamp clock)"
    using assms by (intro nonce_still_valid) auto
  show "key = stun_long_term_key C (cred_username cred) realm (turn_password_for_username C secret (cred_username cred))"
    unfolding assms(15) by (simp add: assms(3) generated_password)
qed (use assms in auto)

definition sample_signed :: stun_message where
  "sample_signed = add_attribute Nonce (nonce sample_crypto [1] 4000) (add_attribute Realm [114]
     (add_attribute Username (cred_username (generate_turn_credentials sample_crypto [1] [97] 100 4000))
       (add_attribute RequestedTransport [17, 0, 0, 0] (stun_new AllocateRequest (replicate 12 7)))))"

lemma sample_texts:
  "cred_username (generate_turn_credentials sample_crypto [1] [97] 100 4000) = [52, 49, 48, 48, 58, 97]"
  "nonce sample_crypto [1] 4000 = [49, 46, 66]"
  by code_simp+

lemma sample_signed_ok:
  "encodable sample_signed" "get_string Username sample_signed = Some [52, 49, 48, 48, 58, 97]"
  "get_string Realm sample_signed = Some [114]" "get_string Nonce sample_signed = Some [49, 46, 66]"
  by (simp_all add: encodable_def sample_signed_def sample_texts add_attribute_def stun_new_def is_trailer_def
      length_encode_attribute attr_padding_def get_string_def get_attribute_def utf8_valid_ascii)

theorem turn_auth_complete_witness:
  "\<exists>m' key. stun_decode (encode_with_integrity (tc_sha1 sample_crypto) (tc_crc sample_crypto) key sample_signed) = Inr m'
    \<and> authenticate sample_crypto [114] [1] 4050000000000 m'
        (encode_with_integrity (tc_sha1 sample_crypto) (tc_crc sample_crypto) key sample_signed)
        = Inr \<lparr> auth_username = [52, 49, 48, 48, 58, 97], auth_key = key \<rparr>"
  using turn_auth_complete [OF sample_crypto_ok sample_signed_ok(1) refl, of "[1]" "[97]" 100 4000 "[114]" 4000
      4050000000000, OF _ _ _ _ _ _ _ _ _ _ _ refl, where crc = "tc_crc sample_crypto"]
  by (auto simp: sample_signed_ok sample_texts timestamp_def)

text \<open>
  C28: nobody else is. An authenticated request names a user of an unexpired time-limited username,
  carries a nonce of the current or the previous hour and the server's realm, and its integrity tag is
  the HMAC, under the key only the shared secret gives, of everything the handlers read of it.
\<close>

theorem turn_auth_sound:
  assumes "stun_decode raw = Inr msg" and "authenticate C realm secret clock msg raw = Inr au"
    and "3600 \<le> timestamp clock" and "timestamp clock < 2 ^ 63"
  shows "get_string Username msg = Some (auth_username au) \<and> get_string Realm msg = Some realm
    \<and> get_string Nonce msg \<in> {Some (nonce C secret (timestamp clock)), Some (nonce C secret (timestamp clock - 3600))}
    \<and> (\<exists>e user. parse_turn_username (auth_username au) = Some (e, user) \<and> user \<noteq> [] \<and> timestamp clock \<le> e)
    \<and> auth_key au = tc_md5 C (auth_username au @ [58] @ realm @ [58] @ tc_b64 C (tc_sha1 C secret (auth_username au)))
    \<and> (\<exists>off before. take 20 (drop (off + 4) raw) = tc_sha1 C (auth_key au) (integrity_input raw)
        \<and> decode_attrs (integrity_input raw) 20 off False [] = Inr before
        \<and> filter (\<lambda>a. \<not> is_trailer a) (attributes msg) = filter (\<lambda>a. \<not> is_trailer a) before)"
proof -
  from assms(2) have au: "get_string Username msg = Some (auth_username au)" "get_string Realm msg = Some realm"
      "\<exists>n. get_string Nonce msg = Some n \<and> nonce_is_valid C secret n (timestamp clock)"
      "\<exists>e user. parse_turn_username (auth_username au) = Some (e, user) \<and> user \<noteq> [] \<and> timestamp clock \<le> e"
      "auth_key au = stun_long_term_key C (auth_username au) realm (turn_password_for_username C secret (auth_username au))"
      "verify_integrity (tc_sha1 C) raw (auth_key au)"
    unfolding authenticate_Inr by auto
  from verify_integrityD [OF au(6)] obtain off where
    off: "find_attribute_offset raw (attr_to_u16 MessageIntegrity) = Some off" "20 \<le> off" "off + 24 \<le> length raw"
      "take 20 (drop (off + 4) raw) = tc_sha1 C (auth_key au) (integrity_input raw)" by blast
  from covered_view [OF assms(1) off(1,3,2)] obtain before mi fps where
    "attributes msg = before @ mi # fps" "is_trailer mi" "\<forall>a \<in> set fps. is_trailer a"
    "decode_attrs (integrity_input raw) 20 off False [] = Inr before" by blast
  then have "filter (\<lambda>a. \<not> is_trailer a) (attributes msg) = filter (\<lambda>a. \<not> is_trailer a) before
      \<and> decode_attrs (integrity_input raw) 20 off False [] = Inr before"
    by (simp add: filter_empty_conv)
  moreover from au(3) have "get_string Nonce msg \<in>
      {Some (nonce C secret (timestamp clock)), Some (nonce C secret (timestamp clock - 3600))}"
    using nonce_is_valid_exact [OF assms(3,4)] by auto
  ultimately show ?thesis
    using au(1,2,4,5) off(4) by (auto simp: stun_long_term_key_def turn_password_for_username_def)
qed

theorem turn_auth_sound_witness:
  "\<exists>msg key off before. let raw = encode_with_integrity (tc_sha1 sample_crypto) (tc_crc sample_crypto) key sample_signed
     in stun_decode raw = Inr msg
      \<and> authenticate sample_crypto [114] [1] 4050000000000 msg raw = Inr \<lparr> auth_username = [52, 49, 48, 48, 58, 97], auth_key = key \<rparr>
      \<and> take 20 (drop (off + 4) raw) = tc_sha1 sample_crypto key (integrity_input raw)
      \<and> decode_attrs (integrity_input raw) 20 off False [] = Inr before
      \<and> filter (\<lambda>a. \<not> is_trailer a) (attributes msg) = filter (\<lambda>a. \<not> is_trailer a) before"
proof -
  let ?u = "[52, 49, 48, 48, 58, 97]"
  let ?key = "stun_long_term_key sample_crypto ?u [114] (turn_password_for_username sample_crypto [1] ?u)"
  let ?raw = "encode_with_integrity (tc_sha1 sample_crypto) (tc_crc sample_crypto) ?key sample_signed"
  have p: "parse_turn_username ?u = Some (4100, [97])" "nonce_is_valid sample_crypto [1] [49, 46, 66] 4050"
    by code_simp+
  obtain msg where msg: "stun_decode ?raw = Inr msg"
    "authenticate sample_crypto [114] [1] 4050000000000 msg ?raw = Inr \<lparr> auth_username = ?u, auth_key = ?key \<rparr>"
    using authenticate_signed [OF sample_crypto_ok sample_signed_ok _ p(1) _ _ _ refl,
        of 4050000000000 "[1]" "tc_crc sample_crypto"] p(2) by (auto simp: timestamp_def)
  from turn_auth_sound [OF msg] msg show ?thesis
    by (auto simp: timestamp_def Let_def intro!: exI [of _ msg] exI [of _ ?key])
qed

end
