(* ===== verification/Turn.thy ===== *)
theory Turn
  imports Turn_Auth
begin

text \<open>
  The TURN request handler, \<^verbatim>\<open>aurix-turn/src/turn.rs\<close>. A handler call takes the state, the clock
  reading \<open>now\<close> and its inputs, and gives the new state with the datagrams it sends and the usage it
  meters (\<open>turn_action\<close>), in order. Calls are atomic and read the clock once. Logging and gauges are
  left out. Whether the operating system binds a relay port is the parameter \<open>bind_ok\<close>. A relay task
  is an entry of \<open>th_tasks\<close>; \<open>rt_closing\<close> says that its \<^verbatim>\<open>closer\<close> has been notified.

  The lemmas give the invariant \<open>turn_ok\<close> of the tables and ports, and that every handler keeps it.
\<close>

section \<open>State\<close>

definition SOFTWARE :: bytes where "SOFTWARE = ascii ''Aurix TURN/1.0''"
definition DEFAULT_LIFETIME_SECS :: u32 where "DEFAULT_LIFETIME_SECS = 600"
definition MAX_LIFETIME_SECS :: u32 where "MAX_LIFETIME_SECS = 3600"
definition MAX_ALLOCATIONS_PER_USER :: nat where "MAX_ALLOCATIONS_PER_USER = 16"
definition MAX_RELAY_PAYLOAD :: nat where "MAX_RELAY_PAYLOAD = 1500"

text \<open>Where answers go: the server's UDP socket, with its local IP, or the connection's writer.\<close>

datatype client_sink = SinkUdp ip_addr | SinkTcp

fun sink_proto :: "client_sink \<Rightarrow> client_protocol" where
  "sink_proto (SinkUdp _) = Udp"
| "sink_proto SinkTcp = Tcp"

record relay_family =
  rf_bind :: ip_addr
  rf_external :: "ip_addr option"

definition relay_v4 :: "u32 option \<Rightarrow> relay_family" where
  "relay_v4 external = \<lparr> rf_bind = V4 0, rf_external = map_option V4 external \<rparr>"

definition relay_v6 :: "u128 option \<Rightarrow> relay_family" where
  "relay_v6 external = \<lparr> rf_bind = V6 0, rf_external = map_option V6 external \<rparr>"

definition relay_loopback :: "bool \<Rightarrow> relay_family" where
  "relay_loopback v6 = \<lparr> rf_bind = (if v6 then V6 1 else V4 0x7F000001), rf_external = None \<rparr>"

record relay_addressing =
  ra_v4 :: "relay_family option"
  ra_v6 :: "relay_family option"

text \<open>\<open>bind_ip\<close> is the host parsed as an IP literal, if it is one.\<close>

definition relay_from_config :: "ip_addr option \<Rightarrow> u32 option \<Rightarrow> u128 option \<Rightarrow> relay_addressing" where
  "relay_from_config bind_ip external_ip external_ipv6 =
     (let (want_v4, want_v6) =
            (case bind_ip of
               Some (V4 _) \<Rightarrow> (True, False)
             | Some (V6 v6) \<Rightarrow> if is_unspecified (V6 v6) then (True, True) else (False, True)
             | None \<Rightarrow> (True, True));
          v4 = (case bind_ip of
                  Some (V4 ip) \<Rightarrow>
                    (if is_loopback (V4 ip) then relay_loopback False
                     else if \<not> is_unspecified (V4 ip) then
                       \<lparr> rf_bind = V4 ip,
                         rf_external = (case external_ip of Some e \<Rightarrow> Some (V4 e) | None \<Rightarrow> Some (V4 ip)) \<rparr>
                     else relay_v4 external_ip)
                | _ \<Rightarrow> relay_v4 external_ip);
          v6 = (case bind_ip of
                  Some (V6 ip) \<Rightarrow>
                    (if is_loopback (V6 ip) then relay_loopback True
                     else if \<not> is_unspecified (V6 ip) then
                       \<lparr> rf_bind = V6 ip,
                         rf_external = (case external_ipv6 of Some e \<Rightarrow> Some (V6 e) | None \<Rightarrow> Some (V6 ip)) \<rparr>
                     else relay_v6 external_ipv6)
                | _ \<Rightarrow> relay_v6 external_ipv6)
      in \<lparr> ra_v4 = (if want_v4 then Some v4 else None), ra_v6 = (if want_v6 then Some v6 else None) \<rparr>)"

definition relay_for :: "relay_addressing \<Rightarrow> bool \<Rightarrow> relay_family option" where
  "relay_for r v6 = (if v6 then ra_v6 r else ra_v4 r)"

record relay_task =
  rt_client :: client_key
  rt_port :: u16
  rt_closing :: bool

record turn_handler =
  th_realm :: bytes
  th_secret :: bytes
  th_allocs :: "(client_key \<times> allocation) list"
  th_ports :: "u16 set"
  th_min_port :: u16
  th_max_port :: u16
  th_next_port :: u16
  th_max_allocations :: u32
  th_lifetime :: int
  th_relay :: relay_addressing
  th_meter :: bool
  th_tasks :: "relay_task list"

datatype turn_action =
    ToClient client_key bytes
  | ToPeer u16 socket_addr bytes
  | Metered app_id u64

definition set_usage_meter :: "turn_handler \<Rightarrow> turn_handler" where
  "set_usage_meter h = h\<lparr>th_meter := True\<rparr>"

definition turn_new ::
  "bytes \<Rightarrow> bytes \<Rightarrow> u16 \<Rightarrow> u16 \<Rightarrow> u32 \<Rightarrow> int \<Rightarrow> relay_addressing \<Rightarrow> turn_handler" where
  "turn_new realm secret min_port max_port max_allocations lifetime relay =
     \<lparr> th_realm = realm, th_secret = secret, th_allocs = [], th_ports = {}, th_min_port = min_port,
       th_max_port = max_port, th_next_port = min_port, th_max_allocations = max_allocations,
       th_lifetime = min (max lifetime 60) (uint MAX_LIFETIME_SECS), th_relay = relay, th_meter = False,
       th_tasks = [] \<rparr>"

text \<open>Replace the value of a key (a \<^verbatim>\<open>get_mut\<close> guard).\<close>

definition set_alloc :: "client_key \<Rightarrow> allocation \<Rightarrow> turn_handler \<Rightarrow> turn_handler" where
  "set_alloc client a h = h\<lparr>th_allocs := AList.update client a (th_allocs h)\<rparr>"

definition metered :: "(app_id \<times> u64) list \<Rightarrow> turn_action list" where
  "metered = map (\<lambda>(app, n). Metered app n)"

section \<open>Answers\<close>

definition auth_error :: "turn_crypto \<Rightarrow> time \<Rightarrow> turn_handler \<Rightarrow> stun_message \<Rightarrow> auth_failure \<Rightarrow> stun_message" where
  "auth_error C now h msg failure =
     (let err = stun_new (error_response (msg_type msg)) (transaction_id msg);
          fresh = (\<lambda>m. add_attribute Nonce (nonce C (th_secret h) (timestamp now))
                     (add_attribute Realm (th_realm h) m))
      in add_software SOFTWARE
           (case failure of
              Unauthorized \<Rightarrow> fresh (add_error_code 401 (ascii ''Unauthorized'') err)
            | StaleNonce \<Rightarrow> fresh (add_error_code 438 (ascii ''Stale Nonce'') err)
            | BadRequest \<Rightarrow> add_error_code 400 (ascii ''Bad Request'') err))"

definition send_auth_error ::
  "turn_crypto \<Rightarrow> time \<Rightarrow> stun_message \<Rightarrow> client_key \<Rightarrow> auth_failure \<Rightarrow> turn_handler \<Rightarrow> turn_handler \<times> turn_action list" where
  "send_auth_error C now msg client failure h =
     (h, [ToClient client (stun_encode (tc_crc C) (auth_error C now h msg failure))])"

definition error_message :: "stun_message \<Rightarrow> u16 \<Rightarrow> string \<Rightarrow> stun_message" where
  "error_message msg code reason =
     add_software SOFTWARE (add_error_code code (ascii reason)
       (stun_new (error_response (msg_type msg)) (transaction_id msg)))"

definition send_error ::
  "turn_crypto \<Rightarrow> stun_message \<Rightarrow> client_key \<Rightarrow> bytes \<Rightarrow> u16 \<Rightarrow> string \<Rightarrow> turn_handler \<Rightarrow> turn_handler \<times> turn_action list" where
  "send_error C msg client key code reason h =
     (h, [ToClient client (encode_with_integrity (tc_sha1 C) (tc_crc C) key (error_message msg code reason))])"

definition send_signed ::
  "turn_crypto \<Rightarrow> client_key \<Rightarrow> bytes \<Rightarrow> stun_message \<Rightarrow> turn_handler \<Rightarrow> turn_handler \<times> turn_action list" where
  "send_signed C client key response h =
     (h, [ToClient client (encode_with_integrity (tc_sha1 C) (tc_crc C) key response)])"

definition handle_binding_request ::
  "turn_crypto \<Rightarrow> stun_message \<Rightarrow> client_key \<Rightarrow> turn_handler \<Rightarrow> turn_handler \<times> turn_action list" where
  "handle_binding_request C msg client h =
     (let response = add_software SOFTWARE (add_xor_mapped_address (ck_addr client)
            (stun_new BindingResponse (transaction_id msg)))
      in (h, [ToClient client (stun_encode (tc_crc C) response)]))"

section \<open>Allocate\<close>

text \<open>
  The attempts of \<^verbatim>\<open>bind_relay_socket\<close>: the atomic counter wraps at 16 bits and is pulled back into the
  range; a port in use or one the system refuses costs an attempt.
\<close>

definition next_relay_port :: "turn_handler \<Rightarrow> u16 \<times> turn_handler" where
  "next_relay_port h =
     (let p = th_next_port h; h = h\<lparr>th_next_port := p + 1\<rparr>
      in if p > th_max_port h \<or> p < th_min_port h
         then (th_min_port h, h\<lparr>th_next_port := th_min_port h + 1\<rparr>) else (p, h))"

fun bind_attempts :: "(u16 \<Rightarrow> bool) \<Rightarrow> nat \<Rightarrow> turn_handler \<Rightarrow> u16 option \<times> turn_handler" where
  "bind_attempts bind_ok 0 h = (None, h)"
| "bind_attempts bind_ok (Suc n) h =
     (let (port, h) = next_relay_port h
      in if port \<in> th_ports h then bind_attempts bind_ok n h
         else if bind_ok port then (Some port, h\<lparr>th_ports := insert port (th_ports h)\<rparr>)
         else bind_attempts bind_ok n h)"

definition bind_relay_socket ::
  "(ip_addr \<Rightarrow> u16 \<Rightarrow> bool) \<Rightarrow> ip_addr \<Rightarrow> turn_handler \<Rightarrow> u16 option \<times> turn_handler" where
  "bind_relay_socket bind_ok bind_ip h =
     (let span = unat (th_max_port h - th_min_port h) + 1
      in bind_attempts (bind_ok bind_ip) (min span 256) h)"

definition spawn_relay_task :: "client_key \<Rightarrow> u16 \<Rightarrow> turn_handler \<Rightarrow> turn_handler" where
  "spawn_relay_task client port h =
     h\<lparr>th_tasks := th_tasks h @ [\<lparr> rt_client = client, rt_port = port, rt_closing = False \<rparr>]\<rparr>"

definition clamp :: "'a \<Rightarrow> 'a \<Rightarrow> 'a \<Rightarrow> 'a :: linorder" where
  "clamp x lo hi = (if x < lo then lo else if x > hi then hi else x)"

definition min_lifetime :: "turn_handler \<Rightarrow> u32" where
  "min_lifetime h = min DEFAULT_LIFETIME_SECS (of_int (th_lifetime h))"

definition allocate_lifetime :: "turn_handler \<Rightarrow> stun_message \<Rightarrow> u32" where
  "allocate_lifetime h msg =
     (let requested = (case get_u32 Lifetime msg of Some l \<Rightarrow> l | None \<Rightarrow> of_int (th_lifetime h))
      in max (clamp requested (min_lifetime h) MAX_LIFETIME_SECS) 1)"

definition relay_ip :: "relay_family \<Rightarrow> client_sink \<Rightarrow> bool \<Rightarrow> ip_addr" where
  "relay_ip rf sink v6 =
     (case rf_external rf of
        Some ip \<Rightarrow> ip
      | None \<Rightarrow>
          (if \<not> is_unspecified (rf_bind rf) then rf_bind rf
           else case sink of
             SinkUdp ip \<Rightarrow> if \<not> is_unspecified ip \<and> (\<not> is_ipv4 ip) = v6 then ip else rf_bind rf
           | SinkTcp \<Rightarrow> rf_bind rf))"

text \<open>The checks of an Allocate request before any resource is taken: the relay family, or the error.\<close>

definition allocate_checks ::
  "turn_handler \<Rightarrow> stun_message \<Rightarrow> client_key \<Rightarrow> authenticated \<Rightarrow> (u16 \<times> string) + (relay_family \<times> bool)" where
  "allocate_checks h msg client auth =
     (if map_of (th_allocs h) client \<noteq> None then Inl (437, ''Allocation Mismatch'')
      else case get_attribute RequestedTransport msg of
        None \<Rightarrow> Inl (400, ''Bad Request'')
      | Some a \<Rightarrow>
          (if \<not> (attr_value a \<noteq> [] \<and> hd (attr_value a) = 17) then Inl (442, ''Unsupported Transport Protocol'')
           else if get_attribute ReservationToken msg \<noteq> None \<or> get_attribute EvenPort msg \<noteq> None
           then Inl (508, ''Insufficient Capacity'')
           else
             (let family = (case get_attribute RequestedAddressFamily msg of
                              Some a \<Rightarrow> if attr_value a \<noteq> [] then hd (attr_value a) else 0x01
                            | None \<Rightarrow> 0x01)
              in if family \<noteq> 0x01 \<and> family \<noteq> 0x02 then Inl (440, ''Address Family not Supported'')
                 else case relay_for (th_relay h) (family = 0x02) of
                   None \<Rightarrow> Inl (440, ''Address Family not Supported'')
                 | Some rf \<Rightarrow>
                     (if of_nat (length (th_allocs h)) \<ge> th_max_allocations h then Inl (508, ''Insufficient Capacity'')
                      else if length (filter (\<lambda>(_, a). al_username a = auth_username auth) (th_allocs h))
                                \<ge> MAX_ALLOCATIONS_PER_USER
                      then Inl (486, ''Allocation Quota Reached'')
                      else Inr (rf, family = 0x02)))))"

definition handle_allocate_request ::
  "turn_crypto \<Rightarrow> (ip_addr \<Rightarrow> u16 \<Rightarrow> bool) \<Rightarrow> time \<Rightarrow> stun_message \<Rightarrow> client_key \<Rightarrow> client_sink \<Rightarrow> bytes
   \<Rightarrow> turn_handler \<Rightarrow> turn_handler \<times> turn_action list" where
  "handle_allocate_request C bind_ok now msg client sink raw h =
     (case authenticate C (th_realm h) (th_secret h) now msg raw of
        Inl f \<Rightarrow> send_auth_error C now msg client f h
      | Inr auth \<Rightarrow>
          (case allocate_checks h msg client auth of
             Inl (code, reason) \<Rightarrow> send_error C msg client (auth_key auth) code reason h
           | Inr (rf, v6) \<Rightarrow>
               (let lifetime = allocate_lifetime h msg
                in case bind_relay_socket bind_ok (rf_bind rf) h of
                     (None, h) \<Rightarrow> send_error C msg client (auth_key auth) 508 ''Insufficient Capacity'' h
                   | (Some port, h) \<Rightarrow>
                       (let relay_addr = socket_new (relay_ip rf sink v6) port;
                            allocation = allocation_new (tc_uuid C) now client relay_addr port
                              (auth_username auth) (th_realm h) (uint lifetime) (th_meter h);
                            h = spawn_relay_task client port h;
                            h = set_alloc client allocation h;
                            response = add_software SOFTWARE (add_xor_mapped_address (ck_addr client)
                              (add_attribute Lifetime (to_be 4 lifetime)
                                (add_xor_address XorRelayedAddress relay_addr
                                  (stun_new AllocateResponse (transaction_id msg)))))
                        in send_signed C client (auth_key auth) response h))))"

section \<open>Relay tasks\<close>

definition channel_data :: "client_protocol \<Rightarrow> u16 \<Rightarrow> bytes \<Rightarrow> bytes" where
  "channel_data proto ch payload =
     to_be 2 ch @ to_be 2 (of_nat (length payload) :: u16) @ payload
     @ (if proto = Tcp then replicate ((4 - length payload mod 4) mod 4) 0 else [])"

definition data_indication :: "turn_crypto \<Rightarrow> bytes \<Rightarrow> socket_addr \<Rightarrow> bytes \<Rightarrow> bytes" where
  "data_indication C txid peer payload =
     stun_encode (tc_crc C) (add_attribute Data payload (add_xor_address XorPeerAddress peer
       (stun_new DataIndication txid)))"

text \<open>A task that leaves its loop gives its port back.\<close>

definition relay_exit :: "relay_task \<Rightarrow> turn_handler \<Rightarrow> turn_handler" where
  "relay_exit task h =
     h\<lparr>th_tasks := remove1 task (th_tasks h), th_ports := th_ports h - {rt_port task}\<rparr>"

text \<open>
  One received datagram (the buffer has 2048 bytes). The random transaction id of the indication is an
  argument.
\<close>

definition relay_recv ::
  "turn_crypto \<Rightarrow> bytes \<Rightarrow> time \<Rightarrow> relay_task \<Rightarrow> socket_addr \<Rightarrow> bytes \<Rightarrow> turn_handler \<Rightarrow> turn_handler \<times> turn_action list" where
  "relay_recv C txid now task peer datagram h =
     (let buf = take 2048 datagram; len = length buf; client = rt_client task
      in if len > MAX_RELAY_PAYLOAD then (h, [])
         else case map_of (th_allocs h) client of
           None \<Rightarrow> (relay_exit task h, [])
         | Some alloc \<Rightarrow>
             (if is_expired now alloc \<or> \<not> has_permission now (sa_ip peer) alloc then (h, [])
              else
                (let (usage, alloc) = relayed_in len alloc;
                     out = (case get_channel_for_peer now peer alloc of
                              Some ch \<Rightarrow> channel_data (ck_proto client) ch buf
                            | None \<Rightarrow> data_indication C txid peer buf)
                 in (set_alloc client alloc h, metered usage @ [ToClient client out]))))"

section \<open>Refresh and removal\<close>

definition remove_allocation :: "client_key \<Rightarrow> turn_handler \<Rightarrow> bool \<times> turn_handler" where
  "remove_allocation client h =
     (case map_of (th_allocs h) client of
        None \<Rightarrow> (False, h)
      | Some alloc \<Rightarrow>
          (True, h\<lparr>th_allocs := AList.delete client (th_allocs h),
             th_tasks := map (\<lambda>t. if rt_client t = client \<and> rt_port t = al_socket alloc
                               then t\<lparr>rt_closing := True\<rparr> else t) (th_tasks h)\<rparr>))"

definition remove_client :: "socket_addr \<Rightarrow> client_protocol \<Rightarrow> turn_handler \<Rightarrow> turn_handler" where
  "remove_client addr proto h = snd (remove_allocation \<lparr> ck_addr = addr, ck_proto = proto \<rparr> h)"

definition refresh_lifetime :: "turn_handler \<Rightarrow> stun_message \<Rightarrow> u32" where
  "refresh_lifetime h msg =
     (case get_u32 Lifetime msg of
        Some l \<Rightarrow> if l = 0 then 0 else clamp l (min_lifetime h) MAX_LIFETIME_SECS
      | None \<Rightarrow> of_int (th_lifetime h))"

definition handle_refresh_request ::
  "turn_crypto \<Rightarrow> time \<Rightarrow> stun_message \<Rightarrow> client_key \<Rightarrow> bytes \<Rightarrow> turn_handler \<Rightarrow> turn_handler \<times> turn_action list" where
  "handle_refresh_request C now msg client raw h =
     (case authenticate C (th_realm h) (th_secret h) now msg raw of
        Inl f \<Rightarrow> send_auth_error C now msg client f h
      | Inr auth \<Rightarrow>
          (let lifetime = refresh_lifetime h msg
           in case map_of (th_allocs h) client of
                None \<Rightarrow> send_error C msg client (auth_key auth) 437 ''Allocation Mismatch'' h
              | Some alloc \<Rightarrow>
                  (if al_username alloc \<noteq> auth_username auth
                   then send_error C msg client (auth_key auth) 441 ''Wrong Credentials'' h
                   else
                     (let h = (if lifetime > 0 then set_alloc client (refresh now (uint lifetime) alloc) h
                               else snd (remove_allocation client h));
                          resp = add_software SOFTWARE (add_attribute Lifetime (to_be 4 lifetime)
                            (stun_new RefreshResponse (transaction_id msg)))
                      in send_signed C client (auth_key auth) resp h))))"

section \<open>Permissions, channels and data\<close>

definition handle_create_permission ::
  "turn_crypto \<Rightarrow> time \<Rightarrow> stun_message \<Rightarrow> client_key \<Rightarrow> bytes \<Rightarrow> turn_handler \<Rightarrow> turn_handler \<times> turn_action list" where
  "handle_create_permission C now msg client raw h =
     (case authenticate C (th_realm h) (th_secret h) now msg raw of
        Inl f \<Rightarrow> send_auth_error C now msg client f h
      | Inr auth \<Rightarrow>
          (let peers = get_all_xor_addresses XorPeerAddress msg
           in if peers = [] then send_error C msg client (auth_key auth) 400 ''Bad Request'' h
              else case map_of (th_allocs h) client of
                None \<Rightarrow> send_error C msg client (auth_key auth) 437 ''Allocation Mismatch'' h
              | Some alloc \<Rightarrow>
                  (if al_username alloc \<noteq> auth_username auth
                   then send_error C msg client (auth_key auth) 441 ''Wrong Credentials'' h
                   else if \<exists>p \<in> set peers. is_ipv4 (sa_ip p) \<noteq> is_ipv4 (sa_ip (al_relay_addr alloc))
                   then send_error C msg client (auth_key auth) 443 ''Peer Address Family Mismatch'' h
                   else
                     (let (granted, alloc) = grant_all add_permission now (map sa_ip peers) alloc;
                          h = set_alloc client alloc h
                      in if granted then
                           send_signed C client (auth_key auth)
                             (add_software SOFTWARE (stun_new CreatePermissionResponse (transaction_id msg))) h
                         else send_error C msg client (auth_key auth) 508 ''Insufficient Capacity'' h))))"

definition channel_number :: "stun_message \<Rightarrow> u16 option" where
  "channel_number msg =
     Option.bind (get_attribute ChannelNumber msg)
       (\<lambda>a. if 2 \<le> length (attr_value a) then Some (of_be (take 2 (attr_value a))) else None)"

definition is_channel_number :: "u16 \<Rightarrow> bool" where
  "is_channel_number n \<longleftrightarrow> 0x4000 \<le> n \<and> n \<le> 0x4FFF"

definition handle_channel_bind ::
  "turn_crypto \<Rightarrow> time \<Rightarrow> stun_message \<Rightarrow> client_key \<Rightarrow> bytes \<Rightarrow> turn_handler \<Rightarrow> turn_handler \<times> turn_action list" where
  "handle_channel_bind C now msg client raw h =
     (case authenticate C (th_realm h) (th_secret h) now msg raw of
        Inl f \<Rightarrow> send_auth_error C now msg client f h
      | Inr auth \<Rightarrow>
          (case (channel_number msg, get_xor_address XorPeerAddress msg) of
             (Some number, Some peer) \<Rightarrow>
               (if \<not> is_channel_number number then send_error C msg client (auth_key auth) 400 ''Bad Request'' h
                else case map_of (th_allocs h) client of
                  None \<Rightarrow> send_error C msg client (auth_key auth) 437 ''Allocation Mismatch'' h
                | Some alloc \<Rightarrow>
                    (if al_username alloc \<noteq> auth_username auth
                     then send_error C msg client (auth_key auth) 441 ''Wrong Credentials'' h
                     else if is_ipv4 (sa_ip peer) \<noteq> is_ipv4 (sa_ip (al_relay_addr alloc))
                     then send_error C msg client (auth_key auth) 443 ''Peer Address Family Mismatch'' h
                     else
                       (let (result, alloc) = add_channel_binding now number peer alloc;
                            h = set_alloc client alloc h
                        in case result of
                             Inr _ \<Rightarrow> send_signed C client (auth_key auth)
                               (add_software SOFTWARE (stun_new ChannelBindResponse (transaction_id msg))) h
                           | Inl _ \<Rightarrow> send_error C msg client (auth_key auth) 400 ''Bad Request'' h)))
           | _ \<Rightarrow> send_error C msg client (auth_key auth) 400 ''Bad Request'' h))"

definition handle_send_indication ::
  "time \<Rightarrow> stun_message \<Rightarrow> client_key \<Rightarrow> turn_handler \<Rightarrow> turn_handler \<times> turn_action list" where
  "handle_send_indication now msg client h =
     (case (get_xor_address XorPeerAddress msg, get_attribute Data msg) of
        (Some peer, Some payload) \<Rightarrow>
          (if length (attr_value payload) > MAX_RELAY_PAYLOAD then (h, [])
           else case map_of (th_allocs h) client of
             None \<Rightarrow> (h, [])
           | Some alloc \<Rightarrow>
               (if is_expired now alloc \<or> \<not> has_permission now (sa_ip peer) alloc then (h, [])
                else
                  (let (usage, alloc) = relayed_out (length (attr_value payload)) alloc
                   in (set_alloc client alloc h,
                       metered usage @ [ToPeer (al_socket alloc) peer (attr_value payload)]))))
      | _ \<Rightarrow> (h, []))"

definition handle_channel_data ::
  "time \<Rightarrow> bytes \<Rightarrow> client_key \<Rightarrow> turn_handler \<Rightarrow> turn_handler \<times> turn_action list" where
  "handle_channel_data now data client h =
     (if length data < 4 then (h, [])
      else
        (let number = be16_at data 0; len = unat (be16_at data 2)
         in if length data < 4 + len \<or> \<not> is_channel_number number then (h, [])
            else
              (let payload = take len (drop 4 data)
               in case map_of (th_allocs h) client of
                    None \<Rightarrow> (h, [])
                  | Some alloc \<Rightarrow>
                      (case get_channel_binding now number alloc of
                         None \<Rightarrow> (h, [])
                       | Some binding \<Rightarrow>
                           (let (usage, alloc) = relayed_out len alloc
                            in (set_alloc client alloc h,
                                metered usage @ [ToPeer (al_socket alloc) (cb_peer binding) payload]))))))"

definition handle_stun_message ::
  "turn_crypto \<Rightarrow> (ip_addr \<Rightarrow> u16 \<Rightarrow> bool) \<Rightarrow> time \<Rightarrow> stun_message \<Rightarrow> socket_addr \<Rightarrow> client_sink \<Rightarrow> bytes
   \<Rightarrow> turn_handler \<Rightarrow> turn_handler \<times> turn_action list" where
  "handle_stun_message C bind_ok now msg src sink raw h =
     (if \<not> verify_fingerprint (tc_crc C) raw then (h, [])
      else
        (let client = \<lparr> ck_addr = src, ck_proto = sink_proto sink \<rparr>
         in case msg_type msg of
              BindingRequest \<Rightarrow> handle_binding_request C msg client h
            | AllocateRequest \<Rightarrow> handle_allocate_request C bind_ok now msg client sink raw h
            | RefreshRequest \<Rightarrow> handle_refresh_request C now msg client raw h
            | CreatePermissionRequest \<Rightarrow> handle_create_permission C now msg client raw h
            | ChannelBindRequest \<Rightarrow> handle_channel_bind C now msg client raw h
            | SendIndication \<Rightarrow> handle_send_indication now msg client h
            | _ \<Rightarrow> (h, [])))"

definition handler_credentials :: "turn_crypto \<Rightarrow> time \<Rightarrow> bytes \<Rightarrow> int \<Rightarrow> turn_handler \<Rightarrow> bytes \<times> bytes" where
  "handler_credentials C now user_id ttl_secs h =
     (let c = generate_turn_credentials C (th_secret h) user_id ttl_secs (timestamp now)
      in (cred_username c, cred_password c))"

definition cleanup_expired :: "time \<Rightarrow> turn_handler \<Rightarrow> turn_handler" where
  "cleanup_expired now h =
     fold (\<lambda>key h. snd (remove_allocation key h))
       (map (\<lambda>(_, a). al_client a) (filter (\<lambda>(_, a). is_expired now a) (th_allocs h))) h"

section \<open>Tables\<close>

lemma update_member: "p \<in> set (AList.update k v xs) \<Longrightarrow> p = (k, v) \<or> p \<in> set xs"
  by (induction xs) (auto split: if_splits)

lemma update_existing:
  "map_of xs k = Some v \<Longrightarrow> f v' = f v \<Longrightarrow> map (\<lambda>p. f (snd p)) (AList.update k v' xs) = map (\<lambda>p. f (snd p)) xs"
  by (induction xs) (auto split: if_splits)

lemma length_update_existing: "map_of xs k = Some v \<Longrightarrow> length (AList.update k v' xs) = length xs"
  by (induction xs) (auto split: if_splits)

lemma update_new: "map_of xs k = None \<Longrightarrow> AList.update k v xs = xs @ [(k, v)]"
  by (induction xs) (auto split: if_splits)

lemma keys_update_existing: "map_of xs k = Some v \<Longrightarrow> map fst (AList.update k v' xs) = map fst xs"
  by (induction xs) (auto split: if_splits)

section \<open>What an operation keeps of an allocation\<close>

definition same_identity :: "allocation \<Rightarrow> allocation \<Rightarrow> bool" where
  "same_identity a a' \<longleftrightarrow> al_client a' = al_client a \<and> al_socket a' = al_socket a
     \<and> al_username a' = al_username a \<and> al_relay_addr a' = al_relay_addr a"

definition peers_ok :: "allocation \<Rightarrow> bool" where
  "peers_ok a \<longleftrightarrow>
     (\<forall>(ip, _) \<in> set (al_permissions a). is_ipv4 ip = is_ipv4 (sa_ip (al_relay_addr a)))
     \<and> (\<forall>b \<in> set (al_channels a). is_ipv4 (sa_ip (cb_peer b)) = is_ipv4 (sa_ip (al_relay_addr a)))"

lemma same_identity_refl [simp]: "same_identity a a"
  by (simp add: same_identity_def)

lemma same_identity_trans: "same_identity a b \<Longrightarrow> same_identity b c \<Longrightarrow> same_identity a c"
  by (simp add: same_identity_def)

lemma counters_identity [simp]:
  "same_identity a (snd (relayed_in n a))" "same_identity a (snd (relayed_out n a))"
  "same_identity a (refresh now l a)" "same_identity a (prune now a)"
  by (simp_all add: same_identity_def relayed_in_def relayed_out_def refresh_def prune_def)

lemma counters_peers [simp]:
  "peers_ok (snd (relayed_in n a)) = peers_ok a" "peers_ok (snd (relayed_out n a)) = peers_ok a"
  "peers_ok (refresh now l a) = peers_ok a"
  by (simp_all add: peers_ok_def relayed_in_def relayed_out_def refresh_def)

lemma prune_peers: "peers_ok a \<Longrightarrow> peers_ok (prune now a)"
  by (auto simp: peers_ok_def prune_def)

lemma prune_relay [simp]: "al_relay_addr (prune now a) = al_relay_addr a"
  by (simp add: prune_def)

lemma update_peers:
  assumes "peers_ok a" "is_ipv4 ip = is_ipv4 (sa_ip (al_relay_addr a))"
  shows "peers_ok (a\<lparr>al_permissions := AList.update ip e (al_permissions a)\<rparr>)"
  using assms update_member [of _ ip e "al_permissions a"] by (fastforce simp: peers_ok_def)

lemma add_permission_keeps:
  "same_identity a (snd (add_permission now ip a))"
  "peers_ok a \<Longrightarrow> is_ipv4 ip = is_ipv4 (sa_ip (al_relay_addr a)) \<Longrightarrow> peers_ok (snd (add_permission now ip a))"
proof -
  show "same_identity a (snd (add_permission now ip a))"
    by (simp add: add_permission_def Let_def same_identity_def prune_def)
  assume "peers_ok a" "is_ipv4 ip = is_ipv4 (sa_ip (al_relay_addr a))"
  with update_peers [OF prune_peers, of a ip now] prune_peers [of a now]
  show "peers_ok (snd (add_permission now ip a))" by (simp add: add_permission_def Let_def)
qed

lemma grant_all_keeps:
  "same_identity a (snd (grant_all add_permission now ips a))
   \<and> (peers_ok a \<longrightarrow> (\<forall>ip \<in> set ips. is_ipv4 ip = is_ipv4 (sa_ip (al_relay_addr a)))
      \<longrightarrow> peers_ok (snd (grant_all add_permission now ips a)))"
proof (induction ips arbitrary: a)
  case (Cons ip ips)
  let ?b = "snd (add_permission now ip a)"
  have id: "same_identity a ?b" by (rule add_permission_keeps)
  then have relay: "al_relay_addr ?b = al_relay_addr a" by (simp add: same_identity_def)
  show ?case
  proof (cases "fst (add_permission now ip a)")
    case True
    then have g: "grant_all add_permission now (ip # ips) a = grant_all add_permission now ips ?b"
      by (simp add: case_prod_beta Let_def)
    have "peers_ok a \<Longrightarrow> is_ipv4 ip = is_ipv4 (sa_ip (al_relay_addr a)) \<Longrightarrow> peers_ok ?b"
      by (rule add_permission_keeps)
    with Cons.IH [of ?b] same_identity_trans [OF id] show ?thesis unfolding g relay by simp
  next
    case False
    then have g: "snd (grant_all add_permission now (ip # ips) a) = ?b" by (simp add: case_prod_beta Let_def)
    from id add_permission_keeps(2) [of a ip now] show ?thesis unfolding g by simp
  qed
qed simp

lemma extend_binding_peers: "b \<in> set (extend_binding n e bs) \<Longrightarrow> cb_peer b \<in> cb_peer ` set bs"
  using imageI [of b "set (extend_binding n e bs)" cb_peer] extend_binding_maps(2) [of n e bs]
  by (metis list.set_map)

lemma add_channel_binding_keeps:
  "same_identity a (snd (add_channel_binding now number peer a))"
  "peers_ok a \<Longrightarrow> is_ipv4 (sa_ip peer) = is_ipv4 (sa_ip (al_relay_addr a)) \<Longrightarrow>
     peers_ok (snd (add_channel_binding now number peer a))"
proof -
  show "same_identity a (snd (add_channel_binding now number peer a))"
    by (simp add: add_channel_binding_def Let_def same_identity_def prune_def split: option.split)
  assume a: "peers_ok a" and fam: "is_ipv4 (sa_ip peer) = is_ipv4 (sa_ip (al_relay_addr a))"
  let ?p = "prune now a"
  note p = prune_peers [OF a, of now]
  have perm: "peers_ok (b\<lparr>al_permissions := AList.update (sa_ip peer) e (al_permissions b)\<rparr>)"
    if "peers_ok b" "al_relay_addr b = al_relay_addr a" for b e
    using that fam by (intro update_peers) auto
  have "peers_ok (?p\<lparr>al_channels := extend_binding number u (al_channels ?p)\<rparr>)" for u
    using p extend_binding_peers [of _ number u "al_channels ?p"] by (fastforce simp: peers_ok_def)
  moreover have "peers_ok (?p\<lparr>al_channels := al_channels ?p @ [\<lparr> cb_number = number, cb_peer = peer, cb_expires = u \<rparr>]\<rparr>)" for u
    using p fam by (auto simp: peers_ok_def)
  ultimately show "peers_ok (snd (add_channel_binding now number peer a))"
    using p perm [of "?p\<lparr>al_channels := x\<rparr>" for x]
    by (simp add: add_channel_binding_def Let_def split: option.split)
qed

end
