(* ===== verification/Turn_Invariant.thy ===== *)
theory Turn_Invariant
  imports Turn
begin

text \<open>
  The invariant of the TURN handler's tables and its preservation by every operation of \<open>Turn\<close>: table
  and quota limits, relay ports, and the address family of peers.
\<close>

section \<open>The invariant\<close>

definition entry_ok :: "turn_handler \<Rightarrow> client_key \<Rightarrow> allocation \<Rightarrow> bool" where
  "entry_ok h c a \<longleftrightarrow> al_client a = c \<and> allocation_ok a \<and> peers_ok a \<and> sa_port (al_relay_addr a) = al_socket a
     \<and> th_min_port h \<le> al_socket a \<and> al_socket a \<le> th_max_port h"

definition users :: "turn_handler \<Rightarrow> bytes list" where
  "users h = map (\<lambda>p. al_username (snd p)) (th_allocs h)"

definition allocs_ok :: "turn_handler \<Rightarrow> bool" where
  "allocs_ok h \<longleftrightarrow> distinct (map fst (th_allocs h)) \<and> (\<forall>p \<in> set (th_allocs h). entry_ok h (fst p) (snd p))
     \<and> length (th_allocs h) \<le> unat (th_max_allocations h)
     \<and> (\<forall>u. count_list (users h) u \<le> MAX_ALLOCATIONS_PER_USER)"

definition tasks_ok :: "turn_handler \<Rightarrow> bool" where
  "tasks_ok h \<longleftrightarrow> distinct (map rt_port (th_tasks h)) \<and> th_ports h = set (map rt_port (th_tasks h))
     \<and> (\<forall>t \<in> set (th_tasks h). th_min_port h \<le> rt_port t \<and> rt_port t \<le> th_max_port h)"

definition config_ok :: "turn_handler \<Rightarrow> bool" where
  "config_ok h \<longleftrightarrow> th_min_port h \<le> th_max_port h \<and> 60 \<le> th_lifetime h \<and> th_lifetime h \<le> 3600"

definition turn_ok :: "turn_handler \<Rightarrow> bool" where
  "turn_ok h \<longleftrightarrow> config_ok h \<and> allocs_ok h \<and> tasks_ok h"

lemma turn_new_ok: "min_port \<le> max_port \<Longrightarrow> turn_ok (turn_new realm secret min_port max_port n l r)"
  by (simp add: turn_ok_def config_ok_def allocs_ok_def tasks_ok_def turn_new_def users_def MAX_LIFETIME_SECS_def)

lemma turn_ok_member:
  assumes "turn_ok h" "p \<in> set (th_allocs h)"
  shows "entry_ok h (fst p) (snd p)"
proof -
  from assms(1) have "\<forall>p \<in> set (th_allocs h). entry_ok h (fst p) (snd p)"
    by (simp add: turn_ok_def allocs_ok_def)
  from bspec [OF this assms(2)] show ?thesis .
qed

lemma turn_ok_entry:
  assumes "turn_ok h" "map_of (th_allocs h) c = Some a"
  shows "entry_ok h c a"
  using turn_ok_member [OF assms(1) map_of_SomeD [OF assms(2)]] by simp

section \<open>Updates of one allocation\<close>

lemma set_alloc_ok:
  assumes ok: "turn_ok h" and a: "map_of (th_allocs h) c = Some a"
    and id: "same_identity a a'" and "allocation_ok a'" "peers_ok a'"
  shows "turn_ok (set_alloc c a' h)"
proof -
  from turn_ok_entry [OF ok a] id assms(4,5) have e: "entry_ok h c a'"
    by (simp add: entry_ok_def same_identity_def)
  have "users (set_alloc c a' h) = users h"
    using id update_existing [OF a, of al_username a'] by (simp add: users_def set_alloc_def same_identity_def)
  moreover have "entry_ok (set_alloc c a' h) (fst p) (snd p)" if "p \<in> set (th_allocs (set_alloc c a' h))" for p
  proof -
    from that have "p = (c, a') \<or> p \<in> set (th_allocs h)"
      by (simp add: set_alloc_def update_member)
    then have "entry_ok h (fst p) (snd p)"
      using e turn_ok_member [OF ok, of p] by auto
    then show ?thesis by (simp add: entry_ok_def set_alloc_def)
  qed
  ultimately show ?thesis
    using ok keys_update_existing [OF a, of a'] length_update_existing [OF a, of a']
    by (simp add: turn_ok_def allocs_ok_def tasks_ok_def config_ok_def set_alloc_def)
qed

section \<open>Ports\<close>

lemma next_relay_port_eq:
  "snd (next_relay_port h) = h\<lparr>th_next_port := th_next_port (snd (next_relay_port h))\<rparr>"
  by (simp add: next_relay_port_def Let_def)

lemma next_relay_port_range:
  "config_ok h \<Longrightarrow> th_min_port h \<le> fst (next_relay_port h) \<and> fst (next_relay_port h) \<le> th_max_port h"
  by (auto simp: next_relay_port_def Let_def config_ok_def)

lemma bind_attempts_spec:
  assumes "config_ok h" "bind_attempts bind_ok n h = (r, h')"
  shows "\<exists>q. (case r of
      None \<Rightarrow> h' = h\<lparr>th_next_port := q\<rparr>
    | Some p \<Rightarrow> h' = h\<lparr>th_next_port := q, th_ports := insert p (th_ports h)\<rparr> \<and> p \<notin> th_ports h
        \<and> th_min_port h \<le> p \<and> p \<le> th_max_port h \<and> bind_ok p)"
  using assms
proof (induction n arbitrary: h)
  case 0
  then show ?case by (auto intro: exI [of _ "th_next_port h"])
next
  case (Suc n)
  obtain p q where np: "next_relay_port h = (p, h\<lparr>th_next_port := q\<rparr>)"
    using next_relay_port_eq [of h] that
    by (intro that [of "fst (next_relay_port h)" "th_next_port (snd (next_relay_port h))"]) (simp add: prod_eq_iff)
  with next_relay_port_range [OF Suc.prems(1)] have range: "th_min_port h \<le> p" "p \<le> th_max_port h" by auto
  have c: "config_ok (h\<lparr>th_next_port := q\<rparr>)" using Suc.prems(1) by (simp add: config_ok_def)
  show ?case
  proof (cases "p \<notin> th_ports h \<and> bind_ok p")
    case True
    with Suc.prems(2) np have "r = Some p" "h' = h\<lparr>th_next_port := q, th_ports := insert p (th_ports h)\<rparr>" by auto
    with True range show ?thesis by (intro exI [of _ q]) simp
  next
    case False
    with Suc.prems(2) np have "bind_attempts bind_ok n (h\<lparr>th_next_port := q\<rparr>) = (r, h')"
      by (auto split: if_splits)
    from Suc.IH [OF c this] show ?thesis by (cases r) simp_all
  qed
qed

section \<open>Allocate\<close>

lemma send_state [simp]:
  "fst (send_error C msg client key code reason h) = h"
  "fst (send_auth_error C now msg client f h) = h"
  "fst (send_signed C client key response h) = h"
  by (simp_all add: send_error_def send_auth_error_def send_signed_def)

lemma users_count: "length (filter (\<lambda>(_, a). al_username a = u) (th_allocs h)) = count_list (users h) u"
proof -
  have "length (filter (\<lambda>(_, a). al_username a = u) xs) = count_list (map (\<lambda>p. al_username (snd p)) xs) u"
    for xs :: "(client_key \<times> allocation) list"
    by (induction xs) auto
  then show ?thesis by (simp add: users_def)
qed

lemma allocate_checks_Inr:
  assumes "allocate_checks h msg client auth = Inr (rf, v6)"
  shows "map_of (th_allocs h) client = None \<and> of_nat (length (th_allocs h)) < th_max_allocations h
    \<and> count_list (users h) (auth_username auth) < MAX_ALLOCATIONS_PER_USER \<and> relay_for (th_relay h) v6 = Some rf"
  using assms
  by (auto simp: allocate_checks_def Let_def users_count not_le split: if_splits option.splits)

text \<open>The new state of an accepted request.\<close>

definition allocated :: "client_key \<Rightarrow> allocation \<Rightarrow> u16 \<Rightarrow> u16 \<Rightarrow> turn_handler \<Rightarrow> turn_handler" where
  "allocated client a port q h = set_alloc client a (spawn_relay_task client port
     (h\<lparr>th_next_port := q, th_ports := insert port (th_ports h)\<rparr>))"

lemma allocate_outcome:
  assumes c: "config_ok h" and r: "fst (handle_allocate_request C bind_ok now msg client sink raw h) = h'"
  obtains (refused) q where "h' = h\<lparr>th_next_port := q\<rparr>"
  | (allocated) auth rf v6 port q a where "authenticate C (th_realm h) (th_secret h) now msg raw = Inr auth"
      "allocate_checks h msg client auth = Inr (rf, v6)"
      "a = allocation_new (tc_uuid C) now client (socket_new (relay_ip rf sink v6) port) port
         (auth_username auth) (th_realm h) (uint (allocate_lifetime h msg)) (th_meter h)"
      "port \<notin> th_ports h" "th_min_port h \<le> port" "port \<le> th_max_port h" "bind_ok (rf_bind rf) port"
      "h' = allocated client a port q h"
proof (cases "authenticate C (th_realm h) (th_secret h) now msg raw")
  case (Inl f)
  with r have "h' = h" by (simp add: handle_allocate_request_def)
  with refused [of "th_next_port h"] show ?thesis by simp
next
  case auth: (Inr auth)
  show ?thesis
  proof (cases "allocate_checks h msg client auth")
    case (Inl e)
    with r auth have "h' = h" by (cases e) (simp add: handle_allocate_request_def)
    with refused [of "th_next_port h"] show ?thesis by simp
  next
    case (Inr e)
    then obtain rf v6 where chk: "allocate_checks h msg client auth = Inr (rf, v6)" by (cases e) auto
    obtain p h1 where b: "bind_relay_socket bind_ok (rf_bind rf) h = (p, h1)" by fastforce
    note spec = bind_attempts_spec [OF c b [unfolded bind_relay_socket_def Let_def]]
    show ?thesis
    proof (cases p)
      case None
      with spec obtain q where "h1 = h\<lparr>th_next_port := q\<rparr>" by auto
      with r auth chk b None have "h' = h\<lparr>th_next_port := q\<rparr>"
        by (simp add: handle_allocate_request_def)
      with refused show ?thesis by blast
    next
      case (Some port)
      with spec obtain q where h1: "h1 = h\<lparr>th_next_port := q, th_ports := insert port (th_ports h)\<rparr>"
        and port: "port \<notin> th_ports h" "th_min_port h \<le> port" "port \<le> th_max_port h" "bind_ok (rf_bind rf) port"
        by auto
      from r auth chk b Some have "h' = allocated client (allocation_new (tc_uuid C) now client
          (socket_new (relay_ip rf sink v6) port) port (auth_username auth) (th_realm h)
          (uint (allocate_lifetime h msg)) (th_meter h)) port q h"
        by (simp add: handle_allocate_request_def h1 allocated_def Let_def)
      from allocated [OF auth chk refl port this] show ?thesis .
    qed
  qed
qed

lemma allocated_ok:
  assumes ok: "turn_ok h" and new: "map_of (th_allocs h) c = None"
    and room: "of_nat (length (th_allocs h)) < th_max_allocations h"
    and quota: "count_list (users h) (al_username a) < MAX_ALLOCATIONS_PER_USER"
    and a: "allocation_ok a" "peers_ok a" "al_client a = c" "al_socket a = port" "sa_port (al_relay_addr a) = port"
    and port: "port \<notin> th_ports h" "th_min_port h \<le> port" "port \<le> th_max_port h"
  shows "turn_ok (allocated c a port q h)"
proof -
  let ?h = "allocated c a port q h"
  have allocs: "th_allocs ?h = th_allocs h @ [(c, a)]"
    using new by (simp add: allocated_def set_alloc_def spawn_relay_task_def update_new)
  have tasks: "th_tasks ?h = th_tasks h @ [\<lparr> rt_client = c, rt_port = port, rt_closing = False \<rparr>]"
    and ports: "th_ports ?h = insert port (th_ports h)"
    and conf: "th_min_port ?h = th_min_port h" "th_max_port ?h = th_max_port h"
      "th_max_allocations ?h = th_max_allocations h" "th_lifetime ?h = th_lifetime h"
    by (simp_all add: allocated_def set_alloc_def spawn_relay_task_def)
  from ok have "config_ok h" and al: "allocs_ok h" and tk: "tasks_ok h" by (simp_all add: turn_ok_def)
  then have "config_ok ?h" by (simp add: config_ok_def conf)
  moreover have "tasks_ok ?h"
    using tk port by (simp add: tasks_ok_def tasks ports conf)
  moreover have "allocs_ok ?h"
  proof -
    have "length (th_allocs h) < unat (th_max_allocations h)"
    proof -
      from al have "length (th_allocs h) \<le> unat (th_max_allocations h)" by (simp add: allocs_ok_def)
      then have "length (th_allocs h) < 2 ^ 32"
        using unsigned_less [of "th_max_allocations h", where ?'a = nat] by simp
      with room show ?thesis by (simp add: word_less_nat_alt unat_of_nat)
    qed
    moreover have "count_list (users ?h) u \<le> MAX_ALLOCATIONS_PER_USER" for u
      using al quota by (auto simp: users_def allocs allocs_ok_def)
    moreover have "entry_ok ?h d b = entry_ok h d b" for d b by (simp add: entry_ok_def conf)
    moreover have "entry_ok h c a" using a port by (simp add: entry_ok_def)
    ultimately show ?thesis
      using al new by (simp add: allocs_ok_def allocs conf map_of_eq_None_iff)
  qed
  ultimately show ?thesis by (simp add: turn_ok_def)
qed

lemma next_port_ok [simp]: "turn_ok (h\<lparr>th_next_port := q\<rparr>) = turn_ok h"
  by (simp add: turn_ok_def config_ok_def allocs_ok_def tasks_ok_def entry_ok_def users_def)

lemma handle_allocate_ok:
  assumes ok: "turn_ok h"
  shows "turn_ok (fst (handle_allocate_request C bind_ok now msg client sink raw h))"
proof -
  obtain h' where r: "fst (handle_allocate_request C bind_ok now msg client sink raw h) = h'" by blast
  from ok have c: "config_ok h" by (simp add: turn_ok_def)
  from c r have "turn_ok h'"
  proof (cases rule: allocate_outcome)
    case refused
    with ok show ?thesis by simp
  next
    case (allocated auth rf v6 port q a)
    note chk = allocate_checks_Inr [OF allocated(2)]
    have "peers_ok a" by (simp add: allocated(3) peers_ok_def allocation_new_def)
    with chk show ?thesis unfolding allocated(8)
      by (intro allocated_ok [OF ok] allocated) (simp_all add: allocated(3) allocation_new_def allocation_ok_def)
  qed
  with r show ?thesis by simp
qed

section \<open>Outcomes of the other handlers\<close>

lemma refresh_outcome:
  assumes "fst (handle_refresh_request C now msg client raw h) = h'"
  obtains (unchanged) "h' = h"
  | (changed) auth a where "authenticate C (th_realm h) (th_secret h) now msg raw = Inr auth"
      "map_of (th_allocs h) client = Some a" "al_username a = auth_username auth"
      "h' = (if refresh_lifetime h msg > 0 then set_alloc client (refresh now (uint (refresh_lifetime h msg)) a) h
             else snd (remove_allocation client h))"
proof (cases "authenticate C (th_realm h) (th_secret h) now msg raw")
  case (Inl f)
  with assms have "h' = h" by (simp add: handle_refresh_request_def)
  then show ?thesis by (rule unchanged)
next
  case auth: (Inr auth)
  show ?thesis
  proof (cases "map_of (th_allocs h) client")
    case None
    with assms auth have "h' = h" by (simp add: handle_refresh_request_def)
    then show ?thesis by (rule unchanged)
  next
    case (Some a)
    show ?thesis
    proof (cases "al_username a = auth_username auth")
      case True
      with assms auth Some show ?thesis
        by (intro changed [OF auth Some True]) (simp add: handle_refresh_request_def Let_def)
    next
      case False
      with assms auth Some have "h' = h" by (simp add: handle_refresh_request_def)
      then show ?thesis by (rule unchanged)
    qed
  qed
qed

lemma create_permission_outcome:
  assumes "fst (handle_create_permission C now msg client raw h) = h'"
  obtains (unchanged) "h' = h"
  | (granted) auth a where "authenticate C (th_realm h) (th_secret h) now msg raw = Inr auth"
      "map_of (th_allocs h) client = Some a" "al_username a = auth_username auth"
      "\<forall>p \<in> set (get_all_xor_addresses XorPeerAddress msg). is_ipv4 (sa_ip p) = is_ipv4 (sa_ip (al_relay_addr a))"
      "h' = set_alloc client (snd (grant_all add_permission now
         (map sa_ip (get_all_xor_addresses XorPeerAddress msg)) a)) h"
proof (cases "authenticate C (th_realm h) (th_secret h) now msg raw")
  case (Inl f)
  with assms have "h' = h" by (simp add: handle_create_permission_def)
  then show ?thesis by (rule unchanged)
next
  case auth: (Inr auth)
  let ?ps = "get_all_xor_addresses XorPeerAddress msg"
  show ?thesis
  proof (cases "map_of (th_allocs h) client")
    case None
    with auth have "h' = h" unfolding assms [symmetric] by (simp add: handle_create_permission_def Let_def)
    then show ?thesis by (rule unchanged)
  next
    case (Some a)
    show ?thesis
    proof (cases "?ps \<noteq> [] \<and> al_username a = auth_username auth
        \<and> (\<forall>p \<in> set ?ps. is_ipv4 (sa_ip p) = is_ipv4 (sa_ip (al_relay_addr a)))")
      case True
      then have "\<not> (\<exists>p \<in> set ?ps. is_ipv4 (sa_ip p) \<noteq> is_ipv4 (sa_ip (al_relay_addr a)))" by blast
      with True auth Some have "h' = set_alloc client (snd (grant_all add_permission now (map sa_ip ?ps) a)) h"
        unfolding assms [symmetric] by (simp add: handle_create_permission_def Let_def case_prod_beta)
      with True show ?thesis by (intro granted [OF auth Some]) blast+
    next
      case False
      then have "?ps = [] \<or> al_username a \<noteq> auth_username auth
        \<or> (\<exists>p \<in> set ?ps. is_ipv4 (sa_ip p) \<noteq> is_ipv4 (sa_ip (al_relay_addr a)))" by blast
      with auth Some have "h' = h" unfolding assms [symmetric]
        by (elim disjE) (simp_all add: handle_create_permission_def Let_def)
      then show ?thesis by (rule unchanged)
    qed
  qed
qed

lemma channel_bind_outcome:
  assumes "fst (handle_channel_bind C now msg client raw h) = h'"
  obtains (unchanged) "h' = h"
  | (bound) auth a number peer where "authenticate C (th_realm h) (th_secret h) now msg raw = Inr auth"
      "map_of (th_allocs h) client = Some a" "al_username a = auth_username auth"
      "channel_number msg = Some number" "is_channel_number number" "get_xor_address XorPeerAddress msg = Some peer"
      "is_ipv4 (sa_ip peer) = is_ipv4 (sa_ip (al_relay_addr a))"
      "h' = set_alloc client (snd (add_channel_binding now number peer a)) h"
proof (cases "authenticate C (th_realm h) (th_secret h) now msg raw")
  case (Inl f)
  with assms have "h' = h" by (simp add: handle_channel_bind_def)
  then show ?thesis by (rule unchanged)
next
  case auth: (Inr auth)
  show ?thesis
  proof (cases "\<exists>number peer a. channel_number msg = Some number \<and> get_xor_address XorPeerAddress msg = Some peer
      \<and> is_channel_number number \<and> map_of (th_allocs h) client = Some a \<and> al_username a = auth_username auth
      \<and> is_ipv4 (sa_ip peer) = is_ipv4 (sa_ip (al_relay_addr a))")
    case True
    then obtain number peer a where *: "channel_number msg = Some number" "get_xor_address XorPeerAddress msg = Some peer"
      "is_channel_number number" "map_of (th_allocs h) client = Some a" "al_username a = auth_username auth"
      "is_ipv4 (sa_ip peer) = is_ipv4 (sa_ip (al_relay_addr a))" by blast
    with assms auth have "h' = set_alloc client (snd (add_channel_binding now number peer a)) h"
      by (auto simp: handle_channel_bind_def Let_def case_prod_beta split: sum.splits)
    with bound [OF auth] * show ?thesis by blast
  next
    case False
    with assms auth have "h' = h"
      by (cases "channel_number msg"; cases "get_xor_address XorPeerAddress msg"; cases "map_of (th_allocs h) client")
        (auto simp: handle_channel_bind_def)
    then show ?thesis by (rule unchanged)
  qed
qed

lemma send_indication_outcome:
  assumes "handle_send_indication now msg client h = (h', acts)"
  obtains (dropped) "h' = h" "acts = []"
  | (relayed) a peer payload where "map_of (th_allocs h) client = Some a"
      "\<not> is_expired now a" "has_permission now (sa_ip peer) a" "length payload \<le> MAX_RELAY_PAYLOAD"
      "h' = set_alloc client (snd (relayed_out (length payload) a)) h"
      "acts = metered (meter_len a (length payload)) @ [ToPeer (al_socket a) peer payload]"
proof (cases "\<exists>a peer d. map_of (th_allocs h) client = Some a \<and> get_xor_address XorPeerAddress msg = Some peer
    \<and> get_attribute Data msg = Some d \<and> \<not> is_expired now a \<and> has_permission now (sa_ip peer) a
    \<and> length (attr_value d) \<le> MAX_RELAY_PAYLOAD")
  case True
  then obtain a peer d where *: "map_of (th_allocs h) client = Some a" "get_xor_address XorPeerAddress msg = Some peer"
    "get_attribute Data msg = Some d" "\<not> is_expired now a" "has_permission now (sa_ip peer) a"
    "length (attr_value d) \<le> MAX_RELAY_PAYLOAD" by blast
  with assms have "h' = set_alloc client (snd (relayed_out (length (attr_value d)) a)) h"
    "acts = metered (meter_len a (length (attr_value d))) @ [ToPeer (al_socket a) peer (attr_value d)]"
    by (auto simp: handle_send_indication_def relayed_out_def)
  from relayed [OF *(1,4,5,6) this] show ?thesis .
next
  case False
  with assms have "h' = h \<and> acts = []"
    by (cases "get_xor_address XorPeerAddress msg"; cases "get_attribute Data msg"; cases "map_of (th_allocs h) client")
      (auto simp: handle_send_indication_def split: if_splits)
  with dropped show ?thesis by blast
qed

lemma channel_data_outcome:
  assumes "handle_channel_data now data client h = (h', acts)"
  obtains (dropped) "h' = h" "acts = []"
  | (relayed) a number b payload where "map_of (th_allocs h) client = Some a"
      "get_channel_binding now number a = Some b" "is_channel_number number"
      "h' = set_alloc client (snd (relayed_out (length payload) a)) h"
      "acts = metered (meter_len a (length payload)) @ [ToPeer (al_socket a) (cb_peer b) payload]"
proof -
  let ?n = "be16_at data 0" and ?len = "unat (be16_at data 2)"
  show ?thesis
  proof (cases "\<exists>a b. map_of (th_allocs h) client = Some a \<and> get_channel_binding now ?n a = Some b
      \<and> is_channel_number ?n \<and> 4 + ?len \<le> length data")
    case True
    then obtain a b where *: "map_of (th_allocs h) client = Some a" "get_channel_binding now ?n a = Some b"
      "is_channel_number ?n" and len: "4 + ?len \<le> length data" by blast
    from len have p: "length (take ?len (drop 4 data)) = ?len" by simp
    from assms * len have "h' = set_alloc client (snd (relayed_out (length (take ?len (drop 4 data))) a)) h"
      "acts = metered (meter_len a (length (take ?len (drop 4 data)))) @ [ToPeer (al_socket a) (cb_peer b) (take ?len (drop 4 data))]"
      unfolding p by (auto simp: handle_channel_data_def relayed_out_def Let_def)
    from relayed [OF * this] show ?thesis .
  next
    case False
    with assms have "h' = h \<and> acts = []"
      by (cases "map_of (th_allocs h) client"; cases "get_channel_binding now ?n (the (map_of (th_allocs h) client))")
        (auto simp: handle_channel_data_def Let_def split: if_splits)
    with dropped show ?thesis by blast
  qed
qed

lemma relay_recv_outcome:
  assumes "relay_recv C txid now task peer datagram h = (h', acts)"
  obtains (dropped) "h' = h" "acts = []"
  | (exits) "map_of (th_allocs h) (rt_client task) = None" "h' = relay_exit task h" "acts = []"
  | (relayed) a n out where "map_of (th_allocs h) (rt_client task) = Some a"
      "\<not> is_expired now a" "has_permission now (sa_ip peer) a"
      "n = length datagram" "n \<le> MAX_RELAY_PAYLOAD"
      "h' = set_alloc (rt_client task) (snd (relayed_in n a)) h"
      "acts = metered (meter_len a n) @ [ToClient (rt_client task) out]"
      "out = (case get_channel_for_peer now peer a of
                Some ch \<Rightarrow> channel_data (ck_proto (rt_client task)) ch datagram
              | None \<Rightarrow> data_indication C txid peer datagram)"
proof (cases "length (take 2048 datagram) > MAX_RELAY_PAYLOAD")
  case True
  with assms show ?thesis by (intro dropped) (simp_all add: relay_recv_def Let_def)
next
  case False
  then have buf: "take 2048 datagram = datagram" "length datagram \<le> MAX_RELAY_PAYLOAD"
    by (simp_all add: MAX_RELAY_PAYLOAD_def min_def split: if_splits)
  show ?thesis
  proof (cases "map_of (th_allocs h) (rt_client task)")
    case None
    then have "relay_recv C txid now task peer datagram h = (relay_exit task h, [])"
      using buf(2) by (simp add: relay_recv_def Let_def buf(1))
    with assms None show ?thesis by (intro exits) simp_all
  next
    case (Some a)
    show ?thesis
    proof (cases "is_expired now a \<or> \<not> has_permission now (sa_ip peer) a")
      case True
      with Some have "relay_recv C txid now task peer datagram h = (h, [])"
        using buf(2) by (simp add: relay_recv_def Let_def buf(1))
      with assms show ?thesis by (intro dropped) simp_all
    next
      case ok: False
      have "get_channel_for_peer now peer (snd (relayed_in n a)) = get_channel_for_peer now peer a" for n
        by (simp add: get_channel_for_peer_def relayed_in_def)
      with Some ok have "relay_recv C txid now task peer datagram h =
          (set_alloc (rt_client task) (snd (relayed_in (length datagram) a)) h,
           metered (meter_len a (length datagram)) @ [ToClient (rt_client task)
             (case get_channel_for_peer now peer a of
                Some ch \<Rightarrow> channel_data (ck_proto (rt_client task)) ch datagram
              | None \<Rightarrow> data_indication C txid peer datagram)])"
        using buf(2) by (simp add: relay_recv_def Let_def buf(1) case_prod_beta) (simp add: relayed_in_def)
      with assms ok show ?thesis by (intro relayed [OF Some _ _ refl buf(2)]) simp_all
    qed
  qed
qed

section \<open>Preservation\<close>

lemma remove_allocation_ok:
  assumes ok: "turn_ok h"
  shows "turn_ok (snd (remove_allocation c h))"
proof (cases "map_of (th_allocs h) c")
  case None
  with ok show ?thesis by (simp add: remove_allocation_def)
next
  case (Some a)
  let ?f = "\<lambda>t. if rt_client t = c \<and> rt_port t = al_socket a then t\<lparr>rt_closing := True\<rparr> else t"
  let ?h = "snd (remove_allocation c h)"
  have allocs: "th_allocs ?h = filter (\<lambda>p. fst p \<noteq> c) (th_allocs h)"
    by (auto simp: remove_allocation_def Some AList.delete_eq intro!: filter_cong)
  have rest: "th_tasks ?h = map ?f (th_tasks h)" "th_ports ?h = th_ports h"
    "th_min_port ?h = th_min_port h" "th_max_port ?h = th_max_port h"
    "th_max_allocations ?h = th_max_allocations h" "th_lifetime ?h = th_lifetime h"
    by (simp_all add: remove_allocation_def Some)
  have p: "map rt_port (map ?f ts) = map rt_port ts" for ts by (induction ts) auto
  have t: "rt_port t \<in> rt_port ` set ts" if "t \<in> set (map ?f ts)" for t ts
  proof -
    from that have "rt_port t \<in> set (map rt_port (map ?f ts))" unfolding set_map [of rt_port] by (rule imageI)
    then show ?thesis unfolding p by simp
  qed
  from ok have tk: "tasks_ok h" and al: "allocs_ok h" and c: "config_ok h" by (simp_all add: turn_ok_def)
  have "tasks_ok ?h"
  proof -
    have "th_min_port h \<le> rt_port t \<and> rt_port t \<le> th_max_port h" if "t \<in> set (map ?f (th_tasks h))" for t
      using t [OF that] tk by (auto simp: tasks_ok_def)
    with tk show ?thesis unfolding tasks_ok_def rest p by blast
  qed
  moreover have "allocs_ok ?h"
  proof -
    have "count_list (map f (filter P xs)) u \<le> count_list (map f xs) u"
      for f and P :: "client_key \<times> allocation \<Rightarrow> bool" and xs and u :: bytes
      by (induction xs) auto
    then have "count_list (users ?h) u \<le> count_list (users h) u" for u by (simp add: users_def allocs)
    with al have "count_list (users ?h) u \<le> MAX_ALLOCATIONS_PER_USER" for u
      by (auto simp: allocs_ok_def intro: le_trans)
    moreover from al have "length (filter (\<lambda>p. fst p \<noteq> c) (th_allocs h)) \<le> unat (th_max_allocations h)"
      by (intro le_trans [OF length_filter_le]) (simp add: allocs_ok_def)
    moreover have "entry_ok ?h d b = entry_ok h d b" for d b by (simp add: entry_ok_def rest)
    ultimately show ?thesis
      using al by (simp add: allocs_ok_def allocs rest distinct_map_filter)
  qed
  moreover have "config_ok ?h" using c by (simp add: config_ok_def rest)
  ultimately show ?thesis by (simp add: turn_ok_def)
qed

lemma relay_exit_ok:
  assumes ok: "turn_ok h" and t: "t \<in> set (th_tasks h)"
  shows "turn_ok (relay_exit t h)"
proof -
  from ok have "tasks_ok h" by (simp add: turn_ok_def)
  then have d: "distinct (map rt_port (th_tasks h))" and p: "th_ports h = rt_port ` set (th_tasks h)"
    and r: "\<forall>t \<in> set (th_tasks h). th_min_port h \<le> rt_port t \<and> rt_port t \<le> th_max_port h"
    by (simp_all add: tasks_ok_def)
  from d have dt: "distinct (th_tasks h)" by (simp add: distinct_map)
  have "rt_port ` (set (th_tasks h) - {t}) = rt_port ` set (th_tasks h) - {rt_port t}"
    using d t inj_on_image_set_diff [of rt_port "set (th_tasks h)" "set (th_tasks h)" "{t}"]
    by (simp add: distinct_map)
  moreover have "distinct (map rt_port (remove1 t (th_tasks h)))"
    using d dt by (auto simp: distinct_map intro: inj_on_subset)
  ultimately have "tasks_ok (relay_exit t h)"
    using p r dt by (simp add: tasks_ok_def relay_exit_def)
  with ok show ?thesis
    by (simp add: turn_ok_def allocs_ok_def config_ok_def relay_exit_def entry_ok_def users_def)
qed

lemmas alloc_update_simps = counters_identity counters_peers counters_ok

lemma handle_refresh_ok:
  assumes ok: "turn_ok h"
  shows "turn_ok (fst (handle_refresh_request C now msg client raw h))"
proof -
  obtain h' where "fst (handle_refresh_request C now msg client raw h) = h'" by blast
  then have "turn_ok h'"
  proof (cases rule: refresh_outcome)
    case (changed auth a)
    from turn_ok_entry [OF ok changed(2)] have "allocation_ok a" "peers_ok a" by (simp_all add: entry_ok_def)
    then show ?thesis unfolding changed(4)
      using set_alloc_ok [OF ok changed(2)] remove_allocation_ok [OF ok] by simp
  qed (use ok in simp)
  with \<open>fst _ = h'\<close> show ?thesis by simp
qed


lemma handle_create_permission_ok:
  assumes ok: "turn_ok h"
  shows "turn_ok (fst (handle_create_permission C now msg client raw h))"
proof -
  obtain h' where h': "fst (handle_create_permission C now msg client raw h) = h'" by blast
  then have "turn_ok h'"
  proof (cases rule: create_permission_outcome)
    case (granted auth a)
    let ?b = "snd (grant_all add_permission now (map sa_ip (get_all_xor_addresses XorPeerAddress msg)) a)"
    from turn_ok_entry [OF ok granted(2)] have a: "allocation_ok a" "peers_ok a" by (simp_all add: entry_ok_def)
    from grant_all_keeps [of a now "map sa_ip (get_all_xor_addresses XorPeerAddress msg)"] a granted(4)
    have "same_identity a ?b" "peers_ok ?b" by simp_all
    with perms.grant_all_ok [OF a(1)] show ?thesis
      unfolding granted(5) by (intro set_alloc_ok [OF ok granted(2)])
  qed (use ok in simp)
  with h' show ?thesis by simp
qed

lemma handle_channel_bind_ok:
  assumes ok: "turn_ok h"
  shows "turn_ok (fst (handle_channel_bind C now msg client raw h))"
proof -
  obtain h' where h': "fst (handle_channel_bind C now msg client raw h) = h'" by blast
  then have "turn_ok h'"
  proof (cases rule: channel_bind_outcome)
    case (bound auth a number peer)
    from turn_ok_entry [OF ok bound(2)] have a: "allocation_ok a" "peers_ok a" by (simp_all add: entry_ok_def)
    show ?thesis unfolding bound(8)
      by (intro set_alloc_ok [OF ok bound(2)] add_channel_binding_keeps add_channel_binding_ok a bound(7))
  qed (use ok in simp)
  with h' show ?thesis by simp
qed

lemma count_update_ok:
  assumes ok: "turn_ok h" and a: "map_of (th_allocs h) c = Some a"
  shows "turn_ok (set_alloc c (snd (relayed_out n a)) h)" "turn_ok (set_alloc c (snd (relayed_in n a)) h)"
proof -
  from turn_ok_entry [OF ok a] have "allocation_ok a" "peers_ok a" by (simp_all add: entry_ok_def)
  with set_alloc_ok [OF ok a] show "turn_ok (set_alloc c (snd (relayed_out n a)) h)"
    "turn_ok (set_alloc c (snd (relayed_in n a)) h)" by simp_all
qed

lemma handle_send_indication_ok:
  assumes ok: "turn_ok h"
  shows "turn_ok (fst (handle_send_indication now msg client h))"
proof -
  obtain h' acts where h': "handle_send_indication now msg client h = (h', acts)" by fastforce
  then have "turn_ok h'"
    by (cases rule: send_indication_outcome) (simp_all add: ok count_update_ok [OF ok])
  with h' show ?thesis by simp
qed

lemma handle_channel_data_ok:
  assumes ok: "turn_ok h"
  shows "turn_ok (fst (handle_channel_data now data client h))"
proof -
  obtain h' acts where h': "handle_channel_data now data client h = (h', acts)" by fastforce
  then have "turn_ok h'"
    by (cases rule: channel_data_outcome) (simp_all add: ok count_update_ok [OF ok])
  with h' show ?thesis by simp
qed

lemma relay_recv_ok:
  assumes ok: "turn_ok h" and t: "task \<in> set (th_tasks h)"
  shows "turn_ok (fst (relay_recv C txid now task peer datagram h))"
proof -
  obtain h' acts where h': "relay_recv C txid now task peer datagram h = (h', acts)" by fastforce
  then have "turn_ok h'"
    by (cases rule: relay_recv_outcome) (simp_all add: ok count_update_ok [OF ok] relay_exit_ok [OF ok t])
  with h' show ?thesis by simp
qed

lemma handle_stun_message_ok:
  assumes "turn_ok h"
  shows "turn_ok (fst (handle_stun_message C bind_ok now msg src sink raw h))"
  using assms
  by (simp add: handle_stun_message_def Let_def handle_allocate_ok handle_refresh_ok handle_create_permission_ok
      handle_channel_bind_ok handle_send_indication_ok handle_binding_request_def split: stun_message_type.split)

lemma cleanup_expired_ok: "turn_ok h \<Longrightarrow> turn_ok (cleanup_expired now h)"
proof -
  have "turn_ok h \<Longrightarrow> turn_ok (fold (\<lambda>key h. snd (remove_allocation key h)) ks h)" for ks
    by (induction ks arbitrary: h) (simp_all add: remove_allocation_ok)
  then show "turn_ok h \<Longrightarrow> turn_ok (cleanup_expired now h)" by (simp add: cleanup_expired_def)
qed

text \<open>Cleaning up leaves exactly the allocations that have not expired.\<close>

lemma allocs_remove:
  "th_allocs (snd (remove_allocation c h)) = filter (\<lambda>p. fst p \<noteq> c) (th_allocs h)"
proof (cases "map_of (th_allocs h) c")
  case None
  then have "\<forall>p \<in> set (th_allocs h). fst p \<noteq> c" by (auto simp: map_of_eq_None_iff)
  with None show ?thesis by (simp add: remove_allocation_def filter_id_conv)
next
  case (Some a)
  then show ?thesis by (auto simp: remove_allocation_def AList.delete_eq intro!: filter_cong)
qed

lemma allocs_cleanup:
  assumes ok: "turn_ok h"
  shows "th_allocs (cleanup_expired now h) = filter (\<lambda>p. \<not> is_expired now (snd p)) (th_allocs h)"
proof -
  have f: "th_allocs (fold (\<lambda>key h. snd (remove_allocation key h)) ks h)
      = filter (\<lambda>p. fst p \<notin> set ks) (th_allocs h)" for ks
    by (induction ks arbitrary: h) (auto simp: allocs_remove intro!: filter_cong)
  let ?ks = "map (\<lambda>(_, a). al_client a) (filter (\<lambda>(_, a). is_expired now a) (th_allocs h))"
  from ok have d: "distinct (map fst (th_allocs h))" by (simp add: turn_ok_def allocs_ok_def)
  have key: "al_client (snd q) = fst q" if "q \<in> set (th_allocs h)" for q
    using turn_ok_member [OF ok that] by (simp add: entry_ok_def)
  have mem: "fst p \<in> set ?ks \<longleftrightarrow> is_expired now (snd p)" if p: "p \<in> set (th_allocs h)" for p
  proof
    assume "fst p \<in> set ?ks"
    then obtain q where q: "q \<in> set (th_allocs h)" "is_expired now (snd q)" "fst p = al_client (snd q)" by auto
    with key have "fst p = fst q" by simp
    with d p q(1) have "p = q" by (simp add: distinct_map inj_on_def)
    with q(2) show "is_expired now (snd p)" by simp
  next
    assume "is_expired now (snd p)"
    with p have "al_client (snd p) \<in> set ?ks" by (force simp: case_prod_beta)
    with key [OF p] show "fst p \<in> set ?ks" by simp
  qed
  have "filter (\<lambda>p. fst p \<notin> set ?ks) (th_allocs h) = filter (\<lambda>p. \<not> is_expired now (snd p)) (th_allocs h)"
    by (rule filter_cong [OF refl]) (simp only: mem)
  with f [of ?ks] show ?thesis unfolding cleanup_expired_def by (simp only:)
qed

end
