(* ===== verification/Turn_Server.thy ===== *)
theory Turn_Server
  imports Turn_Invariant
begin

text \<open>
  The TURN server around the handler, \<^verbatim>\<open>aurix-turn/src/server.rs\<close>: UDP dispatch, TCP framing, the
  cleanup task, and the relay tasks, as a step relation \<open>turn_step\<close> over the handler state and the
  buffers of the open TCP connections. Each received datagram, TCP read, TCP frame, relayed datagram
  and timer tick is a step of its own, in any order. What the operating system does with a bind is
  chosen anew at each step.

  The lemmas show that every reachable state keeps the handler's invariant, and that the server is
  not an open relay: what it forwards is justified by an earlier authenticated request.
\<close>

section \<open>Dispatch and framing\<close>

definition TCP_MAX_FRAME :: nat where "TCP_MAX_FRAME = 64 * 1024"

definition turn_server_new ::
  "bytes \<Rightarrow> bytes \<Rightarrow> u16 \<Rightarrow> u16 \<Rightarrow> u32 \<Rightarrow> int \<Rightarrow> ip_addr option \<Rightarrow> u32 option \<Rightarrow> u128 option \<Rightarrow> turn_handler" where
  "turn_server_new realm secret min_port max_port max_allocations lifetime host external_ip external_ipv6 =
     turn_new realm secret min_port max_port max_allocations lifetime
       (relay_from_config host external_ip external_ipv6)"

definition serve_udp_datagram ::
  "turn_crypto \<Rightarrow> (ip_addr \<Rightarrow> u16 \<Rightarrow> bool) \<Rightarrow> ip_addr \<Rightarrow> time \<Rightarrow> socket_addr \<Rightarrow> bytes \<Rightarrow> turn_handler
   \<Rightarrow> turn_handler \<times> turn_action list" where
  "serve_udp_datagram C bind_ok local_ip now src data h =
     (if length data \<ge> 4 \<and> data ! 0 AND 0xC0 = 0x40
      then handle_channel_data now data \<lparr> ck_addr = src, ck_proto = Udp \<rparr> h
      else if \<not> is_stun data then (h, [])
      else case stun_decode data of
        Inr msg \<Rightarrow> handle_stun_message C bind_ok now msg src (SinkUdp local_ip) data h
      | Inl _ \<Rightarrow> (h, []))"

definition USIZE_MAX :: nat where "USIZE_MAX = 2 ^ 64 - 1"

definition tcp_frame_len :: "bytes \<Rightarrow> nat option" where
  "tcp_frame_len buf =
     (if length buf < 4 then None
      else
        (let kind = buf ! 0 AND 0xC0
         in if kind = 0x40 then
              (let len = unat (be16_at buf 2) in Some (4 + len + (4 - len mod 4) mod 4))
            else if kind = 0x00 then
              (if length buf < STUN_HEADER_SIZE then None
               else case stun_frame_len buf of Some n \<Rightarrow> Some n | None \<Rightarrow> Some USIZE_MAX)
            else Some USIZE_MAX))"

text \<open>One round of the frame loop: wait for more bytes, give the buffer up, or cut a frame off.\<close>

datatype frame_step = Wait | Clear | Frame bytes bytes

definition next_tcp_frame :: "bytes \<Rightarrow> frame_step" where
  "next_tcp_frame buf =
     (case tcp_frame_len buf of
        None \<Rightarrow> Wait
      | Some n \<Rightarrow>
          (if n > TCP_MAX_FRAME then Clear
           else if length buf < n then Wait
           else Frame (take n buf) (drop n buf)))"

definition handle_tcp_frame ::
  "turn_crypto \<Rightarrow> (ip_addr \<Rightarrow> u16 \<Rightarrow> bool) \<Rightarrow> time \<Rightarrow> socket_addr \<Rightarrow> bytes \<Rightarrow> turn_handler
   \<Rightarrow> turn_handler \<times> turn_action list" where
  "handle_tcp_frame C bind_ok now peer frame h =
     (if frame ! 0 AND 0xC0 = 0x40
      then handle_channel_data now frame \<lparr> ck_addr = peer, ck_proto = Tcp \<rparr> h
      else case stun_decode frame of
        Inr msg \<Rightarrow> handle_stun_message C bind_ok now msg peer SinkTcp frame h
      | Inl _ \<Rightarrow> (h, []))"

section \<open>Steps\<close>

record turn_state =
  ts_handler :: turn_handler
  ts_conns :: "(socket_addr \<times> bytes) list"

datatype turn_input =
    FromClient client_key bytes
  | FromPeer relay_task socket_addr bytes
  | Internal

inductive turn_step ::
  "turn_crypto \<Rightarrow> ip_addr \<Rightarrow> turn_state \<Rightarrow> time \<times> turn_input \<times> turn_action list \<Rightarrow> turn_state \<Rightarrow> bool"
  for C :: turn_crypto and local_ip :: ip_addr
where
  udp: "\<lbrakk>serve_udp_datagram C bind_ok local_ip now src (take 4096 data) (ts_handler s) = (h', acts)\<rbrakk> \<Longrightarrow>
    turn_step C local_ip s (now, FromClient \<lparr> ck_addr = src, ck_proto = Udp \<rparr> (take 4096 data), acts) (s\<lparr>ts_handler := h'\<rparr>)"
| tcp_accept: "\<lbrakk>map_of (ts_conns s) src = None\<rbrakk> \<Longrightarrow>
    turn_step C local_ip s (now, Internal, []) (s\<lparr>ts_conns := AList.update src [] (ts_conns s)\<rparr>)"
| tcp_read: "\<lbrakk>map_of (ts_conns s) src = Some buf; next_tcp_frame buf = Wait; chunk \<noteq> []; length chunk \<le> 4096;
     length (buf @ chunk) \<le> TCP_MAX_FRAME\<rbrakk> \<Longrightarrow>
    turn_step C local_ip s (now, Internal, []) (s\<lparr>ts_conns := AList.update src (buf @ chunk) (ts_conns s)\<rparr>)"
| tcp_frame: "\<lbrakk>map_of (ts_conns s) src = Some buf; next_tcp_frame buf = Frame frame rest;
     handle_tcp_frame C bind_ok now src frame (ts_handler s) = (h', acts)\<rbrakk> \<Longrightarrow>
    turn_step C local_ip s (now, FromClient \<lparr> ck_addr = src, ck_proto = Tcp \<rparr> frame, acts)
      (s\<lparr>ts_handler := h', ts_conns := AList.update src rest (ts_conns s)\<rparr>)"
| tcp_clear: "\<lbrakk>map_of (ts_conns s) src = Some buf; next_tcp_frame buf = Clear\<rbrakk> \<Longrightarrow>
    turn_step C local_ip s (now, Internal, []) (s\<lparr>ts_conns := AList.update src [] (ts_conns s)\<rparr>)"
| tcp_overflow: "\<lbrakk>map_of (ts_conns s) src = Some buf; next_tcp_frame buf = Wait; length chunk \<le> 4096;
     length (buf @ chunk) > TCP_MAX_FRAME\<rbrakk> \<Longrightarrow>
    turn_step C local_ip s (now, Internal, [])
      (s\<lparr>ts_handler := remove_client src Tcp (ts_handler s), ts_conns := AList.delete src (ts_conns s)\<rparr>)"
| tcp_close: "\<lbrakk>map_of (ts_conns s) src = Some buf; next_tcp_frame buf = Wait\<rbrakk> \<Longrightarrow>
    turn_step C local_ip s (now, Internal, [])
      (s\<lparr>ts_handler := remove_client src Tcp (ts_handler s), ts_conns := AList.delete src (ts_conns s)\<rparr>)"
| relay_data: "\<lbrakk>task \<in> set (th_tasks (ts_handler s));
     relay_recv C txid now task peer datagram (ts_handler s) = (h', acts)\<rbrakk> \<Longrightarrow>
    turn_step C local_ip s (now, FromPeer task peer datagram, acts) (s\<lparr>ts_handler := h'\<rparr>)"
| relay_closed: "\<lbrakk>task \<in> set (th_tasks (ts_handler s)); rt_closing task\<rbrakk> \<Longrightarrow>
    turn_step C local_ip s (now, Internal, []) (s\<lparr>ts_handler := relay_exit task (ts_handler s)\<rparr>)"
| relay_error: "\<lbrakk>task \<in> set (th_tasks (ts_handler s))\<rbrakk> \<Longrightarrow>
    turn_step C local_ip s (now, Internal, []) (s\<lparr>ts_handler := relay_exit task (ts_handler s)\<rparr>)"
| cleanup: "turn_step C local_ip s (now, Internal, []) (s\<lparr>ts_handler := cleanup_expired now (ts_handler s)\<rparr>)"
| meter: "turn_step C local_ip s (now, Internal, []) (s\<lparr>ts_handler := set_usage_meter (ts_handler s)\<rparr>)"

inductive_cases turn_stepE: "turn_step C local_ip s (now, inp, acts) s'"

text \<open>Runs, with what happened so far.\<close>

type_synonym turn_trace = "(time \<times> turn_input \<times> turn_action list) list"

inductive turn_run :: "turn_crypto \<Rightarrow> ip_addr \<Rightarrow> turn_handler \<Rightarrow> turn_trace \<Rightarrow> turn_state \<Rightarrow> bool"
  for C :: turn_crypto and local_ip :: ip_addr and h0 :: turn_handler
where
  start: "turn_run C local_ip h0 [] \<lparr> ts_handler = h0, ts_conns = [] \<rparr>"
| step: "\<lbrakk>turn_run C local_ip h0 tr s; turn_step C local_ip s ev s'\<rbrakk> \<Longrightarrow> turn_run C local_ip h0 (tr @ [ev]) s'"

section \<open>The invariant on runs\<close>

lemma serve_udp_ok: "turn_ok h \<Longrightarrow> turn_ok (fst (serve_udp_datagram C bind_ok ip now src data h))"
  by (simp add: serve_udp_datagram_def handle_channel_data_ok handle_stun_message_ok split: sum.split)

lemma handle_tcp_frame_ok: "turn_ok h \<Longrightarrow> turn_ok (fst (handle_tcp_frame C bind_ok now src frame h))"
  by (simp add: handle_tcp_frame_def handle_channel_data_ok handle_stun_message_ok split: sum.split)

lemma set_usage_meter_ok [simp]: "turn_ok (set_usage_meter h) = turn_ok h"
  by (simp add: turn_ok_def config_ok_def allocs_ok_def tasks_ok_def entry_ok_def users_def set_usage_meter_def)

lemma turn_step_ok:
  assumes "turn_step C ip s ev s'" and "turn_ok (ts_handler s)"
  shows "turn_ok (ts_handler s')"
  using assms
proof cases
  case (udp bind_ok now src data h' acts)
  then show ?thesis using serve_udp_ok [OF assms(2), of C bind_ok ip now src "take 4096 data"] by simp
next
  case (tcp_frame src buf frame rest bind_ok now h' acts)
  then show ?thesis using handle_tcp_frame_ok [OF assms(2), of C bind_ok now src frame] by simp
next
  case (relay_data task txid now peer datagram h' acts)
  then show ?thesis using relay_recv_ok [OF assms(2), of task C txid now peer datagram] by simp
qed (simp_all add: assms(2) remove_client_def remove_allocation_ok relay_exit_ok cleanup_expired_ok)

lemma turn_run_ok: "turn_run C ip h0 tr s \<Longrightarrow> turn_ok h0 \<Longrightarrow> turn_ok (ts_handler s)"
  by (induction rule: turn_run.induct) (simp_all add: turn_step_ok)

section \<open>Justification of permissions and channels\<close>

text \<open>
  The event is a request of the client, authenticated as \<open>user\<close>, for a permission for \<open>ip\<close>
  (CreatePermission naming it, or ChannelBind to a peer there), or for a channel to \<open>peer\<close>.
\<close>

definition requests_permission ::
  "turn_crypto \<Rightarrow> bytes \<Rightarrow> bytes \<Rightarrow> client_key \<Rightarrow> bytes \<Rightarrow> ip_addr \<Rightarrow> time \<times> turn_input \<times> turn_action list \<Rightarrow> bool" where
  "requests_permission C realm secret client user ip ev \<longleftrightarrow>
     (\<exists>raw msg auth. fst (snd ev) = FromClient client raw \<and> stun_decode raw = Inr msg
        \<and> authenticate C realm secret (fst ev) msg raw = Inr auth \<and> auth_username auth = user
        \<and> (msg_type msg = CreatePermissionRequest \<and> ip \<in> sa_ip ` set (get_all_xor_addresses XorPeerAddress msg)
           \<or> msg_type msg = ChannelBindRequest \<and> map_option sa_ip (get_xor_address XorPeerAddress msg) = Some ip))"

definition requests_channel ::
  "turn_crypto \<Rightarrow> bytes \<Rightarrow> bytes \<Rightarrow> client_key \<Rightarrow> bytes \<Rightarrow> u16 \<Rightarrow> socket_addr \<Rightarrow> time \<times> turn_input \<times> turn_action list \<Rightarrow> bool" where
  "requests_channel C realm secret client user number peer ev \<longleftrightarrow>
     (\<exists>raw msg auth. fst (snd ev) = FromClient client raw \<and> stun_decode raw = Inr msg
        \<and> authenticate C realm secret (fst ev) msg raw = Inr auth \<and> auth_username auth = user
        \<and> msg_type msg = ChannelBindRequest \<and> channel_number msg = Some number
        \<and> get_xor_address XorPeerAddress msg = Some peer)"

definition alloc_justified :: "turn_crypto \<Rightarrow> bytes \<Rightarrow> bytes \<Rightarrow> turn_trace \<Rightarrow> client_key \<Rightarrow> allocation \<Rightarrow> bool" where
  "alloc_justified C realm secret tr c a \<longleftrightarrow>
     (\<forall>p \<in> set (al_permissions a). \<exists>ev \<in> set tr. requests_permission C realm secret c (al_username a) (fst p) ev
        \<and> snd p = fst ev + secs PERMISSION_LIFETIME_SECS)
     \<and> (\<forall>b \<in> set (al_channels a). \<exists>ev \<in> set tr.
        requests_channel C realm secret c (al_username a) (cb_number b) (cb_peer b) ev
        \<and> cb_expires b = fst ev + secs CHANNEL_LIFETIME_SECS)"

definition justified :: "turn_crypto \<Rightarrow> turn_trace \<Rightarrow> turn_handler \<Rightarrow> bool" where
  "justified C tr h \<longleftrightarrow> (\<forall>c a. map_of (th_allocs h) c = Some a \<longrightarrow>
     alloc_justified C (th_realm h) (th_secret h) tr c a)"

lemma alloc_justified_mono:
  assumes "alloc_justified C realm secret tr c a" "set tr \<subseteq> set tr'"
    "set (al_permissions a') \<subseteq> set (al_permissions a)" "set (al_channels a') \<subseteq> set (al_channels a)"
    "al_username a' = al_username a"
  shows "alloc_justified C realm secret tr' c a'"
  unfolding alloc_justified_def
proof (intro conjI ballI)
  fix p assume "p \<in> set (al_permissions a')"
  with assms(3) have "p \<in> set (al_permissions a)" by blast
  with assms(1) obtain ev where "ev \<in> set tr" "requests_permission C realm secret c (al_username a) (fst p) ev"
    "snd p = fst ev + secs PERMISSION_LIFETIME_SECS" unfolding alloc_justified_def by blast
  with assms(2,5) show "\<exists>ev \<in> set tr'. requests_permission C realm secret c (al_username a') (fst p) ev
      \<and> snd p = fst ev + secs PERMISSION_LIFETIME_SECS" by auto
next
  fix b assume "b \<in> set (al_channels a')"
  with assms(4) have "b \<in> set (al_channels a)" by blast
  with assms(1) obtain ev where "ev \<in> set tr"
    "requests_channel C realm secret c (al_username a) (cb_number b) (cb_peer b) ev"
    "cb_expires b = fst ev + secs CHANNEL_LIFETIME_SECS" unfolding alloc_justified_def by blast
  with assms(2,5) show "\<exists>ev \<in> set tr'. requests_channel C realm secret c (al_username a') (cb_number b) (cb_peer b) ev
      \<and> cb_expires b = fst ev + secs CHANNEL_LIFETIME_SECS" by auto
qed

lemma justified_mono:
  assumes "justified C tr h" "set tr \<subseteq> set tr'" "th_realm h' = th_realm h" "th_secret h' = th_secret h"
    "\<And>c a. map_of (th_allocs h') c = Some a \<Longrightarrow> map_of (th_allocs h) c = Some a"
  shows "justified C tr' h'"
  unfolding justified_def
proof (intro allI impI)
  fix c a assume "map_of (th_allocs h') c = Some a"
  then have "map_of (th_allocs h) c = Some a" by (rule assms(5))
  with assms(1) have "alloc_justified C (th_realm h) (th_secret h) tr c a" unfolding justified_def by blast
  from alloc_justified_mono [OF this assms(2) subset_refl subset_refl refl]
  show "alloc_justified C (th_realm h') (th_secret h') tr' c a" unfolding assms(3,4) .
qed

lemma justified_set_alloc:
  assumes "justified C tr h" "set tr \<subseteq> set tr'" "alloc_justified C (th_realm h) (th_secret h) tr' c a'"
  shows "justified C tr' (set_alloc c a' h)"
  unfolding justified_def
proof (intro allI impI)
  fix d b assume "map_of (th_allocs (set_alloc c a' h)) d = Some b"
  then have db: "(if d = c then Some a' else map_of (th_allocs h) d) = Some b" by (simp add: set_alloc_def update_conv')
  have "alloc_justified C (th_realm h) (th_secret h) tr' d b"
  proof (cases "d = c")
    case True
    with db assms(3) show ?thesis by simp
  next
    case False
    with db assms(1) have "alloc_justified C (th_realm h) (th_secret h) tr d b" unfolding justified_def by simp
    from alloc_justified_mono [OF this assms(2) subset_refl subset_refl refl] show ?thesis .
  qed
  then show "alloc_justified C (th_realm (set_alloc c a' h)) (th_secret (set_alloc c a' h)) tr' d b"
    by (simp add: set_alloc_def)
qed

lemma justified_alloc:
  "justified C tr h \<Longrightarrow> map_of (th_allocs h) c = Some a \<Longrightarrow> alloc_justified C (th_realm h) (th_secret h) tr c a"
  unfolding justified_def by blast

section \<open>Every step keeps the justification\<close>

lemma add_permission_members:
  "set (al_permissions (snd (add_permission now ip a))) \<subseteq> insert (ip, now + secs PERMISSION_LIFETIME_SECS) (set (al_permissions a))"
  "set (al_channels (snd (add_permission now ip a))) \<subseteq> set (al_channels a)"
proof -
  show "set (al_permissions (snd (add_permission now ip a))) \<subseteq> insert (ip, now + secs PERMISSION_LIFETIME_SECS) (set (al_permissions a))"
  proof
    fix p assume "p \<in> set (al_permissions (snd (add_permission now ip a)))"
    then have "p \<in> set (al_permissions (prune now a)) \<or>
        p \<in> set (AList.update ip (now + secs PERMISSION_LIFETIME_SECS) (al_permissions (prune now a)))"
      by (auto simp: add_permission_def Let_def split: if_splits)
    then have "p = (ip, now + secs PERMISSION_LIFETIME_SECS) \<or> p \<in> set (al_permissions (prune now a))"
      using update_member [of p ip] by blast
    then show "p \<in> insert (ip, now + secs PERMISSION_LIFETIME_SECS) (set (al_permissions a))"
      by (auto simp: prune_def)
  qed
  show "set (al_channels (snd (add_permission now ip a))) \<subseteq> set (al_channels a)"
    by (auto simp: add_permission_def Let_def prune_def)
qed

lemma grant_all_members:
  "set (al_permissions (snd (grant_all add_permission now ips a)))
     \<subseteq> set (al_permissions a) \<union> (\<lambda>ip. (ip, now + secs PERMISSION_LIFETIME_SECS)) ` set ips
   \<and> set (al_channels (snd (grant_all add_permission now ips a))) \<subseteq> set (al_channels a)"
proof (induction ips arbitrary: a)
  case (Cons ip ips)
  let ?b = "snd (add_permission now ip a)"
  note b = add_permission_members [of now ip a]
  show ?case
  proof (cases "fst (add_permission now ip a)")
    case True
    then have "grant_all add_permission now (ip # ips) a = grant_all add_permission now ips ?b"
      by (simp add: case_prod_beta Let_def)
    with Cons.IH [of ?b] b show ?thesis by auto
  next
    case False
    then have "snd (grant_all add_permission now (ip # ips) a) = ?b" by (simp add: case_prod_beta Let_def)
    with b show ?thesis by auto
  qed
qed simp

lemma extend_binding_cases:
  "b \<in> set (extend_binding number e bs) \<Longrightarrow>
     b \<in> set bs \<or> (\<exists>b' \<in> set bs. cb_number b' = number \<and> b = b'\<lparr>cb_expires := e\<rparr>)"
  by (induction bs) (auto split: if_splits)

lemma add_channel_binding_members:
  "set (al_permissions (snd (add_channel_binding now number peer a)))
     \<subseteq> insert (sa_ip peer, now + secs PERMISSION_LIFETIME_SECS) (set (al_permissions a))"
  "b \<in> set (al_channels (snd (add_channel_binding now number peer a))) \<Longrightarrow> b \<in> set (al_channels a)
     \<or> cb_number b = number \<and> cb_peer b = peer \<and> cb_expires b = now + secs CHANNEL_LIFETIME_SECS"
proof -
  show "set (al_permissions (snd (add_channel_binding now number peer a)))
     \<subseteq> insert (sa_ip peer, now + secs PERMISSION_LIFETIME_SECS) (set (al_permissions a))"
  proof
    fix p assume "p \<in> set (al_permissions (snd (add_channel_binding now number peer a)))"
    then have "p \<in> set (al_permissions (prune now a)) \<or>
        p \<in> set (AList.update (sa_ip peer) (now + secs PERMISSION_LIFETIME_SECS) (al_permissions (prune now a)))"
      by (auto simp: add_channel_binding_def Let_def split: if_splits option.splits)
    then have "p = (sa_ip peer, now + secs PERMISSION_LIFETIME_SECS) \<or> p \<in> set (al_permissions (prune now a))"
      using update_member [of p "sa_ip peer"] by blast
    then show "p \<in> insert (sa_ip peer, now + secs PERMISSION_LIFETIME_SECS) (set (al_permissions a))"
      by (auto simp: prune_def)
  qed
  assume b: "b \<in> set (al_channels (snd (add_channel_binding now number peer a)))"
  have pr: "set (al_channels (prune now a)) \<subseteq> set (al_channels a)" by (auto simp: prune_def)
  show "b \<in> set (al_channels a)
     \<or> cb_number b = number \<and> cb_peer b = peer \<and> cb_expires b = now + secs CHANNEL_LIFETIME_SECS"
  proof (cases "binding_conflict number peer (al_channels (prune now a))")
    case None
    then have agree: "\<forall>b \<in> set (al_channels (prune now a)). cb_number b = number \<longleftrightarrow> cb_peer b = peer"
      by (simp add: binding_conflict_None)
    from b None have "b \<in> set (al_channels (prune now a))
        \<or> b \<in> set (extend_binding number (now + secs CHANNEL_LIFETIME_SECS) (al_channels (prune now a)))
        \<or> b = \<lparr> cb_number = number, cb_peer = peer, cb_expires = now + secs CHANNEL_LIFETIME_SECS \<rparr>"
      by (auto simp: add_channel_binding_def Let_def split: if_splits)
    with pr agree extend_binding_cases [of b number "now + secs CHANNEL_LIFETIME_SECS" "al_channels (prune now a)"]
    show ?thesis by auto
  next
    case (Some e)
    with b pr show ?thesis by (auto simp: add_channel_binding_def Let_def)
  qed
qed

lemma alloc_justified_grow:
  assumes old: "alloc_justified C realm secret tr c a" and tr': "set tr' = insert ev (set tr)"
    and user: "al_username a' = al_username a"
    and perms: "\<And>p. p \<in> set (al_permissions a') \<Longrightarrow> p \<in> set (al_permissions a)
      \<or> requests_permission C realm secret c (al_username a) (fst p) ev \<and> snd p = fst ev + secs PERMISSION_LIFETIME_SECS"
    and chans: "\<And>b. b \<in> set (al_channels a') \<Longrightarrow> b \<in> set (al_channels a)
      \<or> requests_channel C realm secret c (al_username a) (cb_number b) (cb_peer b) ev
        \<and> cb_expires b = fst ev + secs CHANNEL_LIFETIME_SECS"
  shows "alloc_justified C realm secret tr' c a'"
  unfolding alloc_justified_def user
proof (intro conjI ballI)
  fix p assume "p \<in> set (al_permissions a')"
  from perms [OF this] show "\<exists>ev \<in> set tr'. requests_permission C realm secret c (al_username a) (fst p) ev
      \<and> snd p = fst ev + secs PERMISSION_LIFETIME_SECS"
  proof
    assume "p \<in> set (al_permissions a)"
    with old show ?thesis unfolding alloc_justified_def tr' by blast
  qed (auto simp: tr')
next
  fix b assume "b \<in> set (al_channels a')"
  from chans [OF this] show "\<exists>ev \<in> set tr'. requests_channel C realm secret c (al_username a) (cb_number b) (cb_peer b) ev
      \<and> cb_expires b = fst ev + secs CHANNEL_LIFETIME_SECS"
  proof
    assume "b \<in> set (al_channels a)"
    with old show ?thesis unfolding alloc_justified_def tr' by blast
  qed (auto simp: tr')
qed

lemma create_permission_justified:
  assumes j: "justified C tr h" and tr': "set tr' = insert ev (set tr)"
    and ev: "fst ev = now" "fst (snd ev) = FromClient client raw"
    and msg: "stun_decode raw = Inr msg" "msg_type msg = CreatePermissionRequest"
  shows "justified C tr' (fst (handle_create_permission C now msg client raw h))"
proof -
  obtain h' where h': "fst (handle_create_permission C now msg client raw h) = h'" by blast
  from tr' have sub: "set tr \<subseteq> set tr'" by blast
  from h' have "justified C tr' h'"
  proof (cases rule: create_permission_outcome)
    case unchanged
    from justified_mono [OF j sub] show ?thesis unfolding unchanged by blast
  next
    case (granted auth a)
    let ?ips = "map sa_ip (get_all_xor_addresses XorPeerAddress msg)"
    let ?b = "snd (grant_all add_permission now ?ips a)"
    have "alloc_justified C (th_realm h) (th_secret h) tr' client ?b"
    proof (rule alloc_justified_grow [OF justified_alloc [OF j granted(2)] tr'])
      show "al_username ?b = al_username a" using grant_all_keeps [of a now ?ips] by (simp add: same_identity_def)
      fix p assume "p \<in> set (al_permissions ?b)"
      with grant_all_members [of now ?ips a]
      have "p \<in> set (al_permissions a) \<or> p \<in> (\<lambda>ip. (ip, now + secs PERMISSION_LIFETIME_SECS)) ` set ?ips" by blast
      then show "p \<in> set (al_permissions a) \<or> requests_permission C (th_realm h) (th_secret h) client (al_username a) (fst p) ev
          \<and> snd p = fst ev + secs PERMISSION_LIFETIME_SECS"
      proof
        assume "p \<in> (\<lambda>ip. (ip, now + secs PERMISSION_LIFETIME_SECS)) ` set ?ips"
        then obtain ip where p: "p = (ip, now + secs PERMISSION_LIFETIME_SECS)" "ip \<in> set ?ips" by blast
        have "requests_permission C (th_realm h) (th_secret h) client (al_username a) ip ev"
          unfolding requests_permission_def using p(2) granted(1,3) msg ev
          by (intro exI [of _ raw] exI [of _ msg] exI [of _ auth]) simp
        with p(1) ev(1) show ?thesis by simp
      qed simp
    next
      fix b assume "b \<in> set (al_channels ?b)"
      with grant_all_members [of now ?ips a] show "b \<in> set (al_channels a)
          \<or> requests_channel C (th_realm h) (th_secret h) client (al_username a) (cb_number b) (cb_peer b) ev
          \<and> cb_expires b = fst ev + secs CHANNEL_LIFETIME_SECS" by blast
    qed
    from justified_set_alloc [OF j sub this] show ?thesis unfolding granted(5) .
  qed
  with h' show ?thesis by simp
qed

lemma channel_bind_justified:
  assumes j: "justified C tr h" and tr': "set tr' = insert ev (set tr)"
    and ev: "fst ev = now" "fst (snd ev) = FromClient client raw"
    and msg: "stun_decode raw = Inr msg" "msg_type msg = ChannelBindRequest"
  shows "justified C tr' (fst (handle_channel_bind C now msg client raw h))"
proof -
  obtain h' where h': "fst (handle_channel_bind C now msg client raw h) = h'" by blast
  from tr' have sub: "set tr \<subseteq> set tr'" by blast
  from h' have "justified C tr' h'"
  proof (cases rule: channel_bind_outcome)
    case unchanged
    from justified_mono [OF j sub] show ?thesis unfolding unchanged by blast
  next
    case (bound auth a number peer)
    let ?b = "snd (add_channel_binding now number peer a)"
    note mem = add_channel_binding_members(1) [of now number peer a] add_channel_binding_members(2)
    have perm: "requests_permission C (th_realm h) (th_secret h) client (al_username a) (sa_ip peer) ev"
      unfolding requests_permission_def using bound(1,3,6) msg ev
      by (intro exI [of _ raw] exI [of _ msg] exI [of _ auth]) simp
    have chan: "requests_channel C (th_realm h) (th_secret h) client (al_username a) number peer ev"
      unfolding requests_channel_def using bound(1,3,4,6) msg ev
      by (intro exI [of _ raw] exI [of _ msg] exI [of _ auth]) simp
    have "alloc_justified C (th_realm h) (th_secret h) tr' client ?b"
    proof (rule alloc_justified_grow [OF justified_alloc [OF j bound(2)] tr'])
      show "al_username ?b = al_username a"
        using add_channel_binding_keeps(1) [of a now number peer] by (simp add: same_identity_def)
      fix p assume "p \<in> set (al_permissions ?b)"
      with mem(1) have "p = (sa_ip peer, now + secs PERMISSION_LIFETIME_SECS) \<or> p \<in> set (al_permissions a)" by blast
      with perm ev(1) show "p \<in> set (al_permissions a)
          \<or> requests_permission C (th_realm h) (th_secret h) client (al_username a) (fst p) ev
          \<and> snd p = fst ev + secs PERMISSION_LIFETIME_SECS" by (elim disjE) simp_all
    next
      fix b assume "b \<in> set (al_channels ?b)"
      from mem(2) [OF this] chan ev(1) show "b \<in> set (al_channels a)
          \<or> requests_channel C (th_realm h) (th_secret h) client (al_username a) (cb_number b) (cb_peer b) ev
          \<and> cb_expires b = fst ev + secs CHANNEL_LIFETIME_SECS" by (elim disjE) simp_all
    qed
    from justified_set_alloc [OF j sub this] show ?thesis unfolding bound(8) .
  qed
  with h' show ?thesis by simp
qed

text \<open>Updates that leave permissions and channels alone.\<close>

lemma justified_counters:
  assumes j: "justified C tr h" and sub: "set tr \<subseteq> set tr'" and a: "map_of (th_allocs h) c = Some a"
  shows "justified C tr' (set_alloc c (snd (relayed_in n a)) h)" "justified C tr' (set_alloc c (snd (relayed_out n a)) h)"
    "justified C tr' (set_alloc c (refresh now l a) h)"
  by (rule justified_set_alloc [OF j sub alloc_justified_mono [OF justified_alloc [OF j a] sub]],
      simp_all add: relayed_in_def relayed_out_def refresh_def)+

lemma map_of_filter_key: "map_of (filter (\<lambda>p. fst p \<noteq> c) xs) d = (if d = c then None else map_of xs d)"
  by (induction xs) auto

lemma remove_allocation_sub:
  "map_of (th_allocs (snd (remove_allocation c h))) d = Some a \<Longrightarrow> map_of (th_allocs h) d = Some a"
  by (simp add: allocs_remove map_of_filter_key split: if_splits)

lemma remove_allocation_config [simp]:
  "th_realm (snd (remove_allocation c h)) = th_realm h" "th_secret (snd (remove_allocation c h)) = th_secret h"
  "th_min_port (snd (remove_allocation c h)) = th_min_port h"
  "th_max_port (snd (remove_allocation c h)) = th_max_port h"
  "th_max_allocations (snd (remove_allocation c h)) = th_max_allocations h"
  "th_lifetime (snd (remove_allocation c h)) = th_lifetime h" "th_relay (snd (remove_allocation c h)) = th_relay h"
  by (simp_all add: remove_allocation_def split: option.split)

lemma justified_remove:
  assumes "justified C tr h" "set tr \<subseteq> set tr'"
  shows "justified C tr' (snd (remove_allocation c h))"
  by (rule justified_mono [OF assms remove_allocation_config(1,2)]) (rule remove_allocation_sub)

lemma refresh_justified:
  assumes j: "justified C tr h" and sub: "set tr \<subseteq> set tr'"
  shows "justified C tr' (fst (handle_refresh_request C now msg client raw h))"
proof -
  obtain h' where h': "fst (handle_refresh_request C now msg client raw h) = h'" by blast
  then have "justified C tr' h'"
  proof (cases rule: refresh_outcome)
    case unchanged
    from justified_mono [OF j sub] show ?thesis unfolding unchanged by blast
  next
    case (changed auth a)
    show ?thesis unfolding changed(4)
      by (simp add: justified_counters [OF j sub changed(2)] justified_remove [OF j sub])
  qed
  with h' show ?thesis by simp
qed

lemma allocate_justified:
  assumes ok: "turn_ok h" and j: "justified C tr h" and sub: "set tr \<subseteq> set tr'"
  shows "justified C tr' (fst (handle_allocate_request C bind_ok now msg client sink raw h))"
proof -
  obtain h' where h': "fst (handle_allocate_request C bind_ok now msg client sink raw h) = h'" by blast
  from ok have "config_ok h" by (simp add: turn_ok_def)
  from this h' have "justified C tr' h'"
  proof (cases rule: allocate_outcome)
    case (refused q)
    show ?thesis unfolding refused by (rule justified_mono [OF j sub]) simp_all
  next
    case (allocated auth rf v6 port q a)
    let ?h = "spawn_relay_task client port (h\<lparr>th_next_port := q, th_ports := insert port (th_ports h)\<rparr>)"
    have "justified C tr ?h" by (rule justified_mono [OF j]) (simp_all add: spawn_relay_task_def)
    moreover have "alloc_justified C (th_realm ?h) (th_secret ?h) tr' client a"
      by (simp add: alloc_justified_def allocated(3) allocation_new_def)
    ultimately show ?thesis unfolding allocated(8) allocated_def by (rule justified_set_alloc [OF _ sub])
  qed
  with h' show ?thesis by simp
qed

lemma send_indication_justified:
  assumes j: "justified C tr h" and sub: "set tr \<subseteq> set tr'"
  shows "justified C tr' (fst (handle_send_indication now msg client h))"
proof -
  obtain h' acts where h': "handle_send_indication now msg client h = (h', acts)" by fastforce
  then have "justified C tr' h'"
  proof (cases rule: send_indication_outcome)
    case dropped
    from justified_mono [OF j sub] show ?thesis unfolding dropped by blast
  qed (simp add: justified_counters [OF j sub])
  with h' show ?thesis by simp
qed

lemma channel_data_justified:
  assumes j: "justified C tr h" and sub: "set tr \<subseteq> set tr'"
  shows "justified C tr' (fst (handle_channel_data now data client h))"
proof -
  obtain h' acts where h': "handle_channel_data now data client h = (h', acts)" by fastforce
  then have "justified C tr' h'"
  proof (cases rule: channel_data_outcome)
    case dropped
    from justified_mono [OF j sub] show ?thesis unfolding dropped by blast
  qed (simp add: justified_counters [OF j sub])
  with h' show ?thesis by simp
qed

lemma relay_exit_justified:
  assumes j: "justified C tr h" and sub: "set tr \<subseteq> set tr'"
  shows "justified C tr' (relay_exit task h)"
  by (rule justified_mono [OF j sub]) (simp_all add: relay_exit_def)

lemma relay_recv_justified:
  assumes j: "justified C tr h" and sub: "set tr \<subseteq> set tr'"
  shows "justified C tr' (fst (relay_recv C txid now task peer datagram h))"
proof -
  obtain h' acts where h': "relay_recv C txid now task peer datagram h = (h', acts)" by fastforce
  then have "justified C tr' h'"
  proof (cases rule: relay_recv_outcome)
    case dropped
    from justified_mono [OF j sub] show ?thesis unfolding dropped by blast
  qed (simp_all add: justified_counters [OF j sub] relay_exit_justified [OF j sub])
  with h' show ?thesis by simp
qed

lemma stun_message_justified:
  assumes ok: "turn_ok h" and j: "justified C tr h" and tr': "set tr' = insert ev (set tr)"
    and ev: "fst ev = now" "fst (snd ev) = FromClient \<lparr> ck_addr = src, ck_proto = sink_proto sink \<rparr> raw"
    and msg: "stun_decode raw = Inr msg"
  shows "justified C tr' (fst (handle_stun_message C bind_ok now msg src sink raw h))"
proof -
  from tr' have sub: "set tr \<subseteq> set tr'" by blast
  have id: "justified C tr' h" by (rule justified_mono [OF j sub]) simp_all
  show ?thesis
    using id refresh_justified [OF j sub] allocate_justified [OF ok j sub] send_indication_justified [OF j sub]
      create_permission_justified [OF j tr' ev msg] channel_bind_justified [OF j tr' ev msg]
    by (cases "msg_type msg") (simp_all add: handle_stun_message_def Let_def handle_binding_request_def)
qed

lemma justified_cleanup:
  assumes "justified C tr h" "set tr \<subseteq> set tr'"
  shows "justified C tr' (cleanup_expired now h)"
proof -
  have "justified C tr' (fold (\<lambda>key h. snd (remove_allocation key h)) ks h)" if "justified C tr' h" for ks h
    using that by (induction ks arbitrary: h) (simp_all add: justified_remove)
  moreover have "justified C tr' h" by (rule justified_mono [OF assms]) simp_all
  ultimately show ?thesis by (simp add: cleanup_expired_def)
qed

lemma turn_step_justified:
  assumes st: "turn_step C ip s ev s'" and ok: "turn_ok (ts_handler s)" and j: "justified C tr (ts_handler s)"
  shows "justified C (tr @ [ev]) (ts_handler s')"
proof -
  have tr': "set (tr @ [ev]) = insert ev (set tr)" and sub: "set tr \<subseteq> set (tr @ [ev])" by auto
  have id: "justified C (tr @ [ev]) (ts_handler s)" by (rule justified_mono [OF j sub]) simp_all
  note chan = channel_data_justified [OF j sub]
  from st show ?thesis
  proof cases
    case (udp bind_ok now src data h' acts)
    let ?d = "take 4096 data"
    have "justified C (tr @ [ev]) (fst (serve_udp_datagram C bind_ok ip now src ?d (ts_handler s)))"
      using id chan stun_message_justified [OF ok j tr', of now src "SinkUdp ip" ?d] udp(1)
      by (simp add: serve_udp_datagram_def split: sum.split)
    with udp show ?thesis by simp
  next
    case (tcp_frame src buf frame rest bind_ok now h' acts)
    have "justified C (tr @ [ev]) (fst (handle_tcp_frame C bind_ok now src frame (ts_handler s)))"
      using id chan stun_message_justified [OF ok j tr', of now src SinkTcp frame] tcp_frame(1)
      by (simp add: handle_tcp_frame_def split: sum.split)
    with tcp_frame show ?thesis by simp
  next
    case (relay_data task txid now peer datagram h' acts)
    with relay_recv_justified [OF j sub, of txid now task peer datagram] show ?thesis by simp
  next
    case (meter now)
    have "justified C (tr @ [ev]) (set_usage_meter (ts_handler s))"
      by (rule justified_mono [OF j sub]) (simp_all add: set_usage_meter_def)
    with meter show ?thesis by simp
  qed (use id justified_remove [OF j sub] relay_exit_justified [OF j sub] justified_cleanup [OF j sub]
       in \<open>simp_all add: remove_client_def\<close>)
qed

lemma turn_run_justified:
  assumes "turn_run C ip h0 tr s" "turn_ok h0" "th_allocs h0 = []"
  shows "justified C tr (ts_handler s)"
  using assms
proof (induction rule: turn_run.induct)
  case start
  then show ?case by (simp add: justified_def)
next
  case (step tr s ev s')
  with turn_run_ok [OF step.hyps(1)] show ?case by (intro turn_step_justified [OF step.hyps(2)]) simp_all
qed

section \<open>The configuration stays\<close>

abbreviation config_of :: "turn_handler \<Rightarrow> bytes \<times> bytes \<times> u16 \<times> u16 \<times> u32 \<times> int \<times> relay_addressing" where
  "config_of h \<equiv> (th_realm h, th_secret h, th_min_port h, th_max_port h, th_max_allocations h, th_lifetime h, th_relay h)"

lemma set_alloc_config_of [simp]: "config_of (set_alloc c a h) = config_of h"
  by (simp add: set_alloc_def)

lemma handler_config:
  "config_ok h \<Longrightarrow> config_of (fst (handle_allocate_request C bind_ok now msg client sink raw h)) = config_of h"
  "config_of (fst (handle_refresh_request C now msg client raw h)) = config_of h"
  "config_of (fst (handle_create_permission C now msg client raw h)) = config_of h"
  "config_of (fst (handle_channel_bind C now msg client raw h)) = config_of h"
  "config_of (fst (handle_send_indication now msg client h)) = config_of h"
  "config_of (fst (handle_channel_data now data client h)) = config_of h"
  "config_of (fst (relay_recv C txid now task peer datagram h)) = config_of h"
proof -
  show "config_of (fst (handle_allocate_request C bind_ok now msg client sink raw h)) = config_of h" if "config_ok h"
    using that refl [of "fst (handle_allocate_request C bind_ok now msg client sink raw h)"]
    by (cases rule: allocate_outcome) (simp_all add: allocated_def spawn_relay_task_def set_alloc_def)
  show "config_of (fst (handle_refresh_request C now msg client raw h)) = config_of h"
    using refl [of "fst (handle_refresh_request C now msg client raw h)"]
    by (cases rule: refresh_outcome) (simp_all add: remove_allocation_config set_alloc_def)
  show "config_of (fst (handle_create_permission C now msg client raw h)) = config_of h"
    using refl [of "fst (handle_create_permission C now msg client raw h)"]
    by (cases rule: create_permission_outcome) (simp_all add: set_alloc_def)
  show "config_of (fst (handle_channel_bind C now msg client raw h)) = config_of h"
    using refl [of "fst (handle_channel_bind C now msg client raw h)"]
    by (cases rule: channel_bind_outcome) (simp_all add: set_alloc_def)
  show "config_of (fst (handle_send_indication now msg client h)) = config_of h"
    using surjective_pairing [of "handle_send_indication now msg client h"]
    by (cases rule: send_indication_outcome) (simp_all add: set_alloc_def)
  show "config_of (fst (handle_channel_data now data client h)) = config_of h"
    using surjective_pairing [of "handle_channel_data now data client h"]
    by (cases rule: channel_data_outcome) (simp_all add: set_alloc_def)
  show "config_of (fst (relay_recv C txid now task peer datagram h)) = config_of h"
    using surjective_pairing [of "relay_recv C txid now task peer datagram h"]
    by (cases rule: relay_recv_outcome) (simp_all add: set_alloc_def relay_exit_def)
qed

lemma stun_message_config:
  "config_ok h \<Longrightarrow> config_of (fst (handle_stun_message C bind_ok now msg src sink raw h)) = config_of h"
  using handler_config(1) [of h] handler_config(2-5)
  by (cases "msg_type msg") (simp_all add: handle_stun_message_def Let_def handle_binding_request_def)

lemma cleanup_config: "config_of (cleanup_expired now h) = config_of h"
proof -
  have "config_of (fold (\<lambda>key h. snd (remove_allocation key h)) ks h) = config_of h" for ks h
    by (induction ks arbitrary: h) (simp_all add: remove_allocation_config)
  then show ?thesis by (simp add: cleanup_expired_def)
qed

lemma turn_step_config:
  assumes st: "turn_step C ip s ev s'" and ok: "turn_ok (ts_handler s)"
  shows "config_of (ts_handler s') = config_of (ts_handler s)"
proof -
  from ok have c: "config_ok (ts_handler s)" by (simp add: turn_ok_def)
  from st show ?thesis
  proof cases
    case (udp bind_ok now src data h' acts)
    have "config_of (fst (serve_udp_datagram C bind_ok ip now src (take 4096 data) (ts_handler s))) = config_of (ts_handler s)"
      using handler_config(6) [of now "take 4096 data"] stun_message_config [OF c]
      by (simp add: serve_udp_datagram_def split: sum.split)
    with udp show ?thesis by simp
  next
    case (tcp_frame src buf frame rest bind_ok now h' acts)
    have "config_of (fst (handle_tcp_frame C bind_ok now src frame (ts_handler s))) = config_of (ts_handler s)"
      using handler_config(6) [of now frame] stun_message_config [OF c]
      by (simp add: handle_tcp_frame_def split: sum.split)
    with tcp_frame show ?thesis by simp
  next
    case (relay_data task txid now peer datagram h' acts)
    with handler_config(7) [of C txid now task peer datagram "ts_handler s"] show ?thesis by simp
  qed (use cleanup_config [of _ "ts_handler s"] in
        \<open>simp_all add: remove_client_def remove_allocation_config relay_exit_def set_usage_meter_def\<close>)
qed

lemma turn_run_config: "turn_run C ip h0 tr s \<Longrightarrow> turn_ok h0 \<Longrightarrow> config_of (ts_handler s) = config_of h0"
proof (induction rule: turn_run.induct)
  case (step tr s ev s')
  from turn_step_config [OF step.hyps(2) turn_run_ok [OF step.hyps(1) step.prems]] step.IH [OF step.prems]
  show ?case by simp
qed simp

section \<open>What is sent to peers\<close>

lemma metered_no_peer [simp]: "ToPeer port peer payload \<notin> set (metered us)" "ToClient c out \<notin> set (metered us)"
  by (auto simp: metered_def)

definition may_send :: "time \<Rightarrow> socket_addr \<Rightarrow> allocation \<Rightarrow> bool" where
  "may_send now peer a \<longleftrightarrow> has_permission now (sa_ip peer) a
     \<or> (\<exists>number b. get_channel_binding now number a = Some b \<and> cb_peer b = peer)"

lemma send_indication_peer:
  assumes "ToPeer port peer payload \<in> set (snd (handle_send_indication now msg client h))"
  shows "\<exists>a. map_of (th_allocs h) client = Some a \<and> port = al_socket a \<and> may_send now peer a"
  using surjective_pairing [of "handle_send_indication now msg client h"]
proof (cases rule: send_indication_outcome)
  case (relayed a peer' payload')
  with assms show ?thesis by (auto simp: may_send_def)
qed (use assms in simp)

lemma channel_data_peer:
  assumes "ToPeer port peer payload \<in> set (snd (handle_channel_data now data client h))"
  shows "\<exists>a. map_of (th_allocs h) client = Some a \<and> port = al_socket a \<and> may_send now peer a"
  using surjective_pairing [of "handle_channel_data now data client h"]
proof (cases rule: channel_data_outcome)
  case (relayed a number b payload')
  with assms show ?thesis by (auto simp: may_send_def)
qed (use assms in simp)

lemma send_no_peer [simp]:
  "ToPeer port peer payload \<notin> set (snd (send_error C msg client key code reason h))"
  "ToPeer port peer payload \<notin> set (snd (send_auth_error C now msg client f h))"
  "ToPeer port peer payload \<notin> set (snd (send_signed C client key response h))"
  by (simp_all add: send_error_def send_auth_error_def send_signed_def)

lemma requests_no_peer:
  "ToPeer port peer payload \<notin> set (snd (handle_allocate_request C bind_ok now msg client sink raw h))"
  "ToPeer port peer payload \<notin> set (snd (handle_refresh_request C now msg client raw h))"
  "ToPeer port peer payload \<notin> set (snd (handle_create_permission C now msg client raw h))"
  "ToPeer port peer payload \<notin> set (snd (handle_channel_bind C now msg client raw h))"
  by (simp_all add: handle_allocate_request_def handle_refresh_request_def handle_create_permission_def
      handle_channel_bind_def Let_def case_prod_beta split: sum.split option.split prod.split)

lemma stun_message_peer:
  assumes "ToPeer port peer payload \<in> set (snd (handle_stun_message C bind_ok now msg src sink raw h))"
  shows "\<exists>a. map_of (th_allocs h) \<lparr> ck_addr = src, ck_proto = sink_proto sink \<rparr> = Some a
    \<and> port = al_socket a \<and> may_send now peer a"
  using assms requests_no_peer send_indication_peer [of port peer payload now msg]
  by (cases "msg_type msg")
    (simp_all add: handle_stun_message_def Let_def handle_binding_request_def split: if_splits)

lemma turn_step_peer:
  assumes st: "turn_step C ip s (now, inp, acts) s'" and out: "ToPeer port peer payload \<in> set acts"
  shows "\<exists>client raw a. inp = FromClient client raw \<and> map_of (th_allocs (ts_handler s)) client = Some a
    \<and> port = al_socket a \<and> may_send now peer a"
  using st
proof cases
  case (udp bind_ok src data h')
  have "ToPeer port peer payload \<in> set (snd (serve_udp_datagram C bind_ok ip now src (take 4096 data) (ts_handler s)))"
    using out udp by simp
  then show ?thesis
    using channel_data_peer [of port peer payload now "take 4096 data"]
      stun_message_peer [of port peer payload C bind_ok now _ src "SinkUdp ip"] udp(1)
    by (auto simp: serve_udp_datagram_def split: if_splits sum.splits)
next
  case (tcp_frame src buf frame rest bind_ok h')
  have "ToPeer port peer payload \<in> set (snd (handle_tcp_frame C bind_ok now src frame (ts_handler s)))"
    using out tcp_frame by simp
  then show ?thesis
    using channel_data_peer [of port peer payload now frame]
      stun_message_peer [of port peer payload C bind_ok now _ src SinkTcp] tcp_frame(1)
    by (auto simp: handle_tcp_frame_def split: if_splits sum.splits)
next
  case (relay_data task txid datagram h')
  show ?thesis using relay_data(4)
    by (cases rule: relay_recv_outcome) (use out in simp_all)
qed (use out in simp_all)

end
