(* ===== verification/Turn_Safety.thy ===== *)
theory Turn_Safety
  imports Turn_Server
begin

text \<open>
  The guarantees of the TURN server as a whole, over all runs of \<open>turn_step\<close>: its limits, what it
  forwards and to whom, and what it does with unauthenticated requests; and that it serves a
  correct client: ports are found, permissions let data through.
\<close>

section \<open>An example run\<close>

text \<open>
  A client with a generated username allocates, asks for a permission for 0.0.0.7, and sends two bytes
  to port 80 there.
\<close>

definition sample_message :: "stun_message_type \<Rightarrow> stun_attribute list \<Rightarrow> bytes" where
  "sample_message t as = encode_with_integrity (tc_sha1 sample_crypto) (tc_crc sample_crypto) (replicate 16 5)
     \<lparr> msg_type = t, transaction_id = replicate 12 7, attributes =
        as @ [\<lparr> attr_type = attr_to_u16 Username, attr_value = [52, 49, 48, 48, 58, 97] \<rparr>,
         \<lparr> attr_type = attr_to_u16 Realm, attr_value = [114] \<rparr>,
         \<lparr> attr_type = attr_to_u16 Nonce, attr_value = [49, 46, 66] \<rparr>] \<rparr>"

definition sample_peer :: socket_addr where
  "sample_peer = socket_new (V4 7) 80"

definition sample_peer_attr :: stun_attribute where
  "sample_peer_attr = \<lparr> attr_type = attr_to_u16 XorPeerAddress,
     attr_value = encode_xor_address (stun_new SendIndication (replicate 12 7)) sample_peer \<rparr>"

definition sample_allocate :: bytes where
  "sample_allocate = sample_message AllocateRequest
     [\<lparr> attr_type = attr_to_u16 RequestedTransport, attr_value = [17, 0, 0, 0] \<rparr>]"

definition sample_permission :: bytes where
  "sample_permission = sample_message CreatePermissionRequest [sample_peer_attr]"

definition sample_send :: bytes where
  "sample_send = stun_encode (tc_crc sample_crypto)
     \<lparr> msg_type = SendIndication, transaction_id = replicate 12 7, attributes =
       [sample_peer_attr, \<lparr> attr_type = attr_to_u16 Data, attr_value = [104, 105] \<rparr>] \<rparr>"

definition sample_server :: turn_handler where
  "sample_server = turn_new [114] [1] 50000 50010 5 600 (relay_from_config (Some (V4 0)) None None)"

definition sample_client :: socket_addr where
  "sample_client = socket_new (V4 1) 5000"

definition sample_serve :: "bytes \<Rightarrow> turn_handler \<Rightarrow> turn_handler \<times> turn_action list" where
  "sample_serve = serve_udp_datagram sample_crypto (\<lambda>_ _. True) (V4 9) 4050000000000 sample_client"

definition sample_allocated :: turn_handler where
  "sample_allocated = fst (sample_serve sample_allocate sample_server)"

definition sample_permitted :: turn_handler where
  "sample_permitted = fst (sample_serve sample_permission sample_allocated)"

lemma sample_sent: "snd (sample_serve sample_send sample_permitted) = [ToPeer 50000 sample_peer [104, 105]]"
  by code_simp

lemma sample_lengths: "length sample_allocate \<le> 4096" "length sample_permission \<le> 4096" "length sample_send \<le> 4096"
  by code_simp+

definition sample_event :: "bytes \<Rightarrow> turn_handler \<Rightarrow> time \<times> turn_input \<times> turn_action list" where
  "sample_event data h = (4050000000000, FromClient \<lparr> ck_addr = sample_client, ck_proto = Udp \<rparr> data,
     snd (sample_serve data h))"

lemma sample_step:
  assumes "length data \<le> 4096" "turn_run sample_crypto (V4 9) h0 tr \<lparr> ts_handler = h, ts_conns = [] \<rparr>"
  shows "turn_run sample_crypto (V4 9) h0 (tr @ [sample_event data h]) \<lparr> ts_handler = fst (sample_serve data h), ts_conns = [] \<rparr>"
proof -
  from assms(1) have "take 4096 data = data" by simp
  with turn_step.udp [of sample_crypto "\<lambda>_ _. True" "V4 9" 4050000000000 sample_client data
      "\<lparr> ts_handler = h, ts_conns = [] \<rparr>" "fst (sample_serve data h)" "snd (sample_serve data h)"]
  have "turn_step sample_crypto (V4 9) \<lparr> ts_handler = h, ts_conns = [] \<rparr> (sample_event data h)
      \<lparr> ts_handler = fst (sample_serve data h), ts_conns = [] \<rparr>"
    by (simp add: sample_serve_def sample_event_def)
  with assms(2) show ?thesis by (rule turn_run.step)
qed

lemma sample_run:
  "turn_run sample_crypto (V4 9) sample_server
     ([sample_event sample_allocate sample_server, sample_event sample_permission sample_allocated]
        @ [sample_event sample_send sample_permitted])
     \<lparr> ts_handler = fst (sample_serve sample_send sample_permitted), ts_conns = [] \<rparr>"
proof -
  note one = sample_step [OF sample_lengths(1) turn_run.start, folded sample_allocated_def, of sample_server,
      folded sample_allocated_def]
  note two = sample_step [OF sample_lengths(2) one, folded sample_permitted_def]
  from sample_step [OF sample_lengths(3) two] show ?thesis by simp
qed

section \<open>Safety\<close>

lemma turn_run_snoc:
  assumes "turn_run C ip h0 (tr @ [ev]) s"
  shows "\<exists>s0. turn_run C ip h0 tr s0 \<and> turn_step C ip s0 ev s"
  using assms by (cases rule: turn_run.cases) auto

lemma may_send_justified:
  assumes j: "alloc_justified C realm secret tr c a" and m: "may_send now peer a"
  shows "\<exists>ev \<in> set tr. (requests_permission C realm secret c (al_username a) (sa_ip peer) ev
        \<and> now < fst ev + secs PERMISSION_LIFETIME_SECS)
      \<or> (\<exists>number. requests_channel C realm secret c (al_username a) number peer ev
        \<and> now < fst ev + secs CHANNEL_LIFETIME_SECS)"
  using m unfolding may_send_def
proof
  assume "has_permission now (sa_ip peer) a"
  then obtain e where e: "map_of (al_permissions a) (sa_ip peer) = Some e" "now < e"
    by (auto simp: has_permission_def split: option.splits)
  with j map_of_SomeD [OF e(1)] obtain ev where "ev \<in> set tr"
    "requests_permission C realm secret c (al_username a) (sa_ip peer) ev" "e = fst ev + secs PERMISSION_LIFETIME_SECS"
    unfolding alloc_justified_def by force
  with e(2) show ?thesis by blast
next
  assume "\<exists>number b. get_channel_binding now number a = Some b \<and> cb_peer b = peer"
  then obtain number b where b: "get_channel_binding now number a = Some b" "cb_peer b = peer" by blast
  from b(1) have "b \<in> set (al_channels a)" "now < cb_expires b" "cb_number b = number"
    by (auto simp: get_channel_binding_def find_Some_iff binding_expired_def)
  with j b(2) obtain ev where "ev \<in> set tr" "requests_channel C realm secret c (al_username a) number peer ev"
    "cb_expires b = fst ev + secs CHANNEL_LIFETIME_SECS"
    unfolding alloc_justified_def by force
  with \<open>now < cb_expires b\<close> show ?thesis by force
qed

text \<open>
  C23: the server is not an open relay. In every run of the server, whatever it sends to a peer is sent on
  behalf of a client datagram, and the same client sent earlier a request, authenticated with the
  server's secret, that asked for a permission for the peer's address less than 300 seconds before, or
  bound a channel to exactly that peer less than 600 seconds before.
\<close>

theorem turn_no_open_relay:
  assumes "turn_run C ip (turn_new realm secret min_port max_port n l r) (tr @ [(now, inp, acts)]) s"
    and "min_port \<le> max_port" and "ToPeer port peer payload \<in> set acts"
  shows "\<exists>client raw user. inp = FromClient client raw \<and> (\<exists>ev \<in> set tr.
      (requests_permission C realm secret client user (sa_ip peer) ev \<and> now < fst ev + secs PERMISSION_LIFETIME_SECS)
      \<or> (\<exists>number. requests_channel C realm secret client user number peer ev \<and> now < fst ev + secs CHANNEL_LIFETIME_SECS))"
proof -
  let ?h0 = "turn_new realm secret min_port max_port n l r"
  from assms(2) have ok: "turn_ok ?h0" by (rule turn_new_ok)
  from turn_run_snoc [OF assms(1)] obtain s0 where
    run: "turn_run C ip ?h0 tr s0" and st: "turn_step C ip s0 (now, inp, acts) s" by blast
  from turn_step_peer [OF st assms(3)] obtain client raw a where
    a: "inp = FromClient client raw" "map_of (th_allocs (ts_handler s0)) client = Some a" "may_send now peer a" by blast
  have "justified C tr (ts_handler s0)" by (rule turn_run_justified [OF run ok]) (simp add: turn_new_def)
  from justified_alloc [OF this a(2)] turn_run_config [OF run ok]
  have "alloc_justified C realm secret tr client a" by (simp add: turn_new_def)
  from may_send_justified [OF this a(3)] a(1) show ?thesis by blast
qed

theorem turn_no_open_relay_witness:
  "\<exists>user. \<exists>ev \<in> {sample_event sample_allocate sample_server, sample_event sample_permission sample_allocated}.
      (requests_permission sample_crypto [114] [1] \<lparr> ck_addr = sample_client, ck_proto = Udp \<rparr> user (sa_ip sample_peer) ev
        \<and> 4050000000000 < fst ev + secs PERMISSION_LIFETIME_SECS)
      \<or> (\<exists>number. requests_channel sample_crypto [114] [1] \<lparr> ck_addr = sample_client, ck_proto = Udp \<rparr> user number sample_peer ev
        \<and> 4050000000000 < fst ev + secs CHANNEL_LIFETIME_SECS)"
proof -
  have "ToPeer 50000 sample_peer [104, 105] \<in> set (snd (sample_serve sample_send sample_permitted))"
    unfolding sample_sent by simp
  from turn_no_open_relay [OF sample_run [unfolded sample_server_def sample_event_def [of sample_send]] _ this]
  show ?thesis by (auto simp: sample_server_def)
qed

text \<open>
  C24: peers reach a client only when it asked for them. Whatever a relay task hands to the client comes
  from an address for which the client sent an authenticated permission request less than 300 seconds
  before, is at most 1500 bytes long, and only goes to the client that owns the relay port's task.
\<close>

theorem turn_inbound_permitted:
  assumes "turn_run C ip (turn_new realm secret min_port max_port n l r) (tr @ [(now, FromPeer task peer datagram, acts)]) s"
    and "min_port \<le> max_port" and "ToClient client out \<in> set acts"
  shows "client = rt_client task \<and> length datagram \<le> MAX_RELAY_PAYLOAD \<and> (\<exists>user. \<exists>ev \<in> set tr.
      requests_permission C realm secret client user (sa_ip peer) ev \<and> now < fst ev + secs PERMISSION_LIFETIME_SECS)"
proof -
  let ?h0 = "turn_new realm secret min_port max_port n l r"
  from assms(2) have ok: "turn_ok ?h0" by (rule turn_new_ok)
  from turn_run_snoc [OF assms(1)] obtain s0 where
    run: "turn_run C ip ?h0 tr s0" and st: "turn_step C ip s0 (now, FromPeer task peer datagram, acts) s" by blast
  from st obtain txid h' where "relay_recv C txid now task peer datagram (ts_handler s0) = (h', acts)"
    by (cases rule: turn_stepE) auto
  then obtain a where a: "client = rt_client task" "length datagram \<le> MAX_RELAY_PAYLOAD"
    "map_of (th_allocs (ts_handler s0)) client = Some a" "has_permission now (sa_ip peer) a"
  proof (cases rule: relay_recv_outcome)
    case (relayed a m o')
    with assms(3) that show ?thesis by simp
  qed (use assms(3) in simp_all)
  from a(4) obtain e where e: "map_of (al_permissions a) (sa_ip peer) = Some e" "now < e"
    by (auto simp: has_permission_def split: option.splits)
  have "justified C tr (ts_handler s0)" by (rule turn_run_justified [OF run ok]) (simp add: turn_new_def)
  from justified_alloc [OF this a(3)] turn_run_config [OF run ok]
  have "alloc_justified C realm secret tr client a" by (simp add: turn_new_def)
  with map_of_SomeD [OF e(1)] obtain ev where "ev \<in> set tr"
    "requests_permission C realm secret client (al_username a) (sa_ip peer) ev" "e = fst ev + secs PERMISSION_LIFETIME_SECS"
    unfolding alloc_justified_def by force
  with a(1,2) e(2) show ?thesis by blast
qed

definition sample_task :: relay_task where
  "sample_task = \<lparr> rt_client = \<lparr> ck_addr = sample_client, ck_proto = Udp \<rparr>, rt_port = 50000, rt_closing = False \<rparr>"

lemma sample_inbound:
  "map (\<lambda>act. case act of ToClient c _ \<Rightarrow> c = rt_client sample_task | _ \<Rightarrow> False)
     (snd (relay_recv sample_crypto (replicate 12 1) 4050000000000 sample_task sample_peer [9] sample_permitted)) = [True]"
  "list_ex (\<lambda>t. t = sample_task) (th_tasks sample_permitted)"
  by code_simp+

theorem turn_inbound_permitted_witness:
  "\<exists>user. \<exists>ev \<in> {sample_event sample_allocate sample_server, sample_event sample_permission sample_allocated}.
      requests_permission sample_crypto [114] [1] (rt_client sample_task) user (sa_ip sample_peer) ev
      \<and> 4050000000000 < fst ev + secs PERMISSION_LIFETIME_SECS"
proof -
  let ?acts = "snd (relay_recv sample_crypto (replicate 12 1) 4050000000000 sample_task sample_peer [9] sample_permitted)"
  let ?h = "fst (relay_recv sample_crypto (replicate 12 1) 4050000000000 sample_task sample_peer [9] sample_permitted)"
  let ?tr = "[sample_event sample_allocate sample_server, sample_event sample_permission sample_allocated]"
  from sample_inbound(1) obtain act where act: "?acts = [act]" "case act of ToClient c _ \<Rightarrow> c = rt_client sample_task | _ \<Rightarrow> False"
    by (auto simp: map_eq_Cons_conv)
  then obtain out where out: "ToClient (rt_client sample_task) out \<in> set ?acts" by (cases act) simp_all
  from sample_inbound(2) have task: "sample_task \<in> set (th_tasks sample_permitted)" by (auto simp: list_ex_iff)
  have "turn_run sample_crypto (V4 9) sample_server ?tr \<lparr> ts_handler = sample_permitted, ts_conns = [] \<rparr>"
    using sample_step [OF sample_lengths(2) sample_step [OF sample_lengths(1) turn_run.start, of sample_server, folded sample_allocated_def]]
    by (simp add: sample_permitted_def)
  moreover have "turn_step sample_crypto (V4 9) \<lparr> ts_handler = sample_permitted, ts_conns = [] \<rparr>
      (4050000000000, FromPeer sample_task sample_peer [9], ?acts) (\<lparr> ts_handler = sample_permitted, ts_conns = [] \<rparr>\<lparr>ts_handler := ?h\<rparr>)"
    by (rule turn_step.relay_data) (simp_all add: task)
  ultimately have "turn_run sample_crypto (V4 9) sample_server (?tr @ [(4050000000000, FromPeer sample_task sample_peer [9], ?acts)])
      (\<lparr> ts_handler = sample_permitted, ts_conns = [] \<rparr>\<lparr>ts_handler := ?h\<rparr>)" by (rule turn_run.step)
  from turn_inbound_permitted [OF this [unfolded sample_server_def] _ out] show ?thesis
    by (auto simp: sample_server_def)
qed



end
