(* ===== verification/Turn_Service.thy ===== *)
theory Turn_Service
  imports Turn_Safety
begin

text \<open>
  What a TURN client gets: the answer to a request that is not authenticated, the lifetimes it is
  granted, a relay port whenever one is free, delivery in both directions while a permission lasts, and
  framing on TCP.
\<close>

section \<open>Requests that are not authenticated\<close>

lemma get_attribute_add:
  "get_attribute t (add_attribute t' v m) = (case get_attribute t m of
     Some a \<Rightarrow> Some a
   | None \<Rightarrow> if t' = t then Some \<lparr> attr_type = attr_to_u16 t, attr_value = v \<rparr> else None)"
  by (simp add: get_attribute_def add_attribute_def find_append split: option.split)

lemma get_attribute_new [simp]: "get_attribute t (stun_new ty tid) = None"
  by (simp add: get_attribute_def stun_new_def)

lemma nonce_utf8: "crypto_ok C \<Longrightarrow> utf8_valid (nonce C secret t)"
  using print_digits_chars [of 16 "unat (of_int (t sdiv NONCE_LIFETIME_SECS) :: u64)"]
  by (intro utf8_valid_ascii) (auto simp: nonce_def i64_to_hex_def crypto_ok_def Let_def)

text \<open>
  C30: without authentication nothing happens. An Allocate, Refresh, CreatePermission or ChannelBind
  request that does not authenticate leaves the state as it is and is answered by one error response of
  its transaction: 400, or 401 or 438 together with the realm and a nonce the server will accept.
\<close>

theorem turn_unauthenticated_inert:
  assumes "crypto_ok C" and "verify_fingerprint (tc_crc C) raw"
    and "msg_type msg \<in> {AllocateRequest, RefreshRequest, CreatePermissionRequest, ChannelBindRequest}"
    and "authenticate C (th_realm h) (th_secret h) now msg raw = Inl f"
    and "3600 \<le> timestamp now" and "timestamp now < 2 ^ 63"
  shows "\<exists>answer. handle_stun_message C bind_ok now msg src sink raw h
      = (h, [ToClient \<lparr> ck_addr = src, ck_proto = sink_proto sink \<rparr> (stun_encode (tc_crc C) answer)])
    \<and> msg_type answer = error_response (msg_type msg) \<and> transaction_id answer = transaction_id msg
    \<and> map_option (take 4 \<circ> attr_value) (get_attribute ErrorCode answer) =
        Some (case f of Unauthorized \<Rightarrow> [0, 0, 4, 1] | StaleNonce \<Rightarrow> [0, 0, 4, 38] | BadRequest \<Rightarrow> [0, 0, 4, 0])
    \<and> (f \<noteq> BadRequest \<longrightarrow> map_option attr_value (get_attribute Realm answer) = Some (th_realm h)
        \<and> (\<exists>n'. get_string Nonce answer = Some n' \<and> nonce_is_valid C (th_secret h) n' (timestamp now)))"
proof (intro exI conjI)
  let ?e = "auth_error C now h msg f"
  show "handle_stun_message C bind_ok now msg src sink raw h
      = (h, [ToClient \<lparr> ck_addr = src, ck_proto = sink_proto sink \<rparr> (stun_encode (tc_crc C) ?e)])"
    using assms(2-4) by (auto simp: handle_stun_message_def Let_def handle_allocate_request_def
        handle_refresh_request_def handle_create_permission_def handle_channel_bind_def send_auth_error_def)
  show "msg_type ?e = error_response (msg_type msg)" "transaction_id ?e = transaction_id msg"
    by (simp_all add: auth_error_def Let_def add_software_def add_attribute_def add_error_code_def stun_new_def
        split: auth_failure.split)
  show "map_option (take 4 \<circ> attr_value) (get_attribute ErrorCode ?e) =
      Some (case f of Unauthorized \<Rightarrow> [0, 0, 4, 1] | StaleNonce \<Rightarrow> [0, 0, 4, 38] | BadRequest \<Rightarrow> [0, 0, 4, 0])"
    by (simp add: auth_error_def Let_def add_software_def add_error_code_def get_attribute_add
        split: auth_failure.split)
  have valid: "nonce_is_valid C (th_secret h) (nonce C (th_secret h) (timestamp now)) (timestamp now)"
    using nonce_is_valid_exact [OF assms(5,6)] by simp
  show "f \<noteq> BadRequest \<longrightarrow> map_option attr_value (get_attribute Realm ?e) = Some (th_realm h)
      \<and> (\<exists>n'. get_string Nonce ?e = Some n' \<and> nonce_is_valid C (th_secret h) n' (timestamp now))"
    using nonce_utf8 [OF assms(1)] valid
    by (simp add: auth_error_def Let_def add_software_def add_error_code_def get_attribute_add get_string_def
        split: auth_failure.split)
qed

theorem turn_unauthenticated_inert_witness:
  "\<exists>answer. handle_stun_message sample_crypto (\<lambda>_ _. True) 4050000000000 sample_request sample_client SinkTcp
        (stun_encode (tc_crc sample_crypto) sample_request) sample_server
      = (sample_server, [ToClient \<lparr> ck_addr = sample_client, ck_proto = Tcp \<rparr> (stun_encode (tc_crc sample_crypto) answer)])
    \<and> msg_type answer = AllocateErrorResponse
    \<and> map_option (take 4 \<circ> attr_value) (get_attribute ErrorCode answer) = Some [0, 0, 4, 1]"
proof -
  have f: "verify_fingerprint (tc_crc sample_crypto) (stun_encode (tc_crc sample_crypto) sample_request)"
    using decode_stun_encode [OF sample_request_encodable] by blast
  have t: "msg_type sample_request = AllocateRequest"
    by (simp add: sample_request_def add_attribute_def stun_new_def)
  have a: "authenticate sample_crypto (th_realm sample_server) (th_secret sample_server) 4050000000000 sample_request
      (stun_encode (tc_crc sample_crypto) sample_request) = Inl Unauthorized"
    by (simp add: authenticate_def sample_request_def get_attribute_add)
  from turn_unauthenticated_inert [OF sample_crypto_ok f _ a, of "\<lambda>_ _. True" sample_client SinkTcp] show ?thesis
    by (auto simp: t timestamp_def)
qed

section \<open>Lifetimes\<close>



section \<open>Relay ports\<close>

text \<open>The offset in the port range of the port that is tried next.\<close>

definition port_span :: "turn_handler \<Rightarrow> nat" where
  "port_span h = unat (th_max_port h) - unat (th_min_port h) + 1"

definition next_offset :: "turn_handler \<Rightarrow> nat" where
  "next_offset h = (if th_next_port h > th_max_port h \<or> th_next_port h < th_min_port h then 0
     else unat (th_next_port h) - unat (th_min_port h))"

lemma unat_plus_one: "unat (w + 1 :: u16) = (if unat w = 65535 then 0 else unat w + 1)"
proof -
  have "unat w < 2 ^ 16" using unsigned_less [of w, where ?'a = nat] by simp
  then show ?thesis by (auto simp: unat_word_ariths)
qed

lemma suc_mod: "(k :: nat) < n \<Longrightarrow> (k + 1) mod n = (if k + 1 = n then 0 else k + 1)"
  by auto

lemma next_offset_less: "config_ok h \<Longrightarrow> next_offset h < port_span h"
  by (auto simp: next_offset_def port_span_def config_ok_def word_le_nat_alt word_less_nat_alt)

lemma next_relay_port_offset:
  assumes "config_ok h"
  shows "unat (fst (next_relay_port h)) = unat (th_min_port h) + next_offset h
    \<and> next_offset (snd (next_relay_port h)) = (next_offset h + 1) mod port_span h"
proof -
  have b: "unat (th_min_port h) \<le> unat (th_max_port h)" "unat (th_max_port h) < 65536"
    using assms unsigned_less [of "th_max_port h", where ?'a = nat] by (simp_all add: config_ok_def word_le_nat_alt)
  show ?thesis
    unfolding suc_mod [OF next_offset_less [OF assms]] using b
    by (auto simp: next_relay_port_def next_offset_def port_span_def Let_def word_le_nat_alt word_less_nat_alt
        unat_plus_one)
qed

lemma bind_attempts_None:
  assumes "config_ok h" "fst (bind_attempts bind_ok n h) = None" "i < n"
    and "unat q = unat (th_min_port h) + (next_offset h + i) mod port_span h"
  shows "q \<in> th_ports h \<or> \<not> bind_ok q"
  using assms
proof (induction n arbitrary: h i)
  case (Suc n)
  let ?h = "snd (next_relay_port h)" and ?p = "fst (next_relay_port h)"
  note off = next_relay_port_offset [OF Suc.prems(1)]
  have h: "config_ok ?h" "th_ports ?h = th_ports h" "th_min_port ?h = th_min_port h" "port_span ?h = port_span h"
    using Suc.prems(1) next_relay_port_eq [of h]
    by (simp_all add: config_ok_def port_span_def next_relay_port_def Let_def)
  from Suc.prems(2) have not_p: "?p \<in> th_ports h \<or> \<not> bind_ok ?p" and rest: "fst (bind_attempts bind_ok n ?h) = None"
    by (auto simp: case_prod_beta Let_def h(2) split: if_splits)
  show ?case
  proof (cases i)
    case 0
    with Suc.prems(4) off next_offset_less [OF Suc.prems(1)] have "unat q = unat ?p" by simp
    then have "q = ?p" by (simp only: word_unat_eq_iff)
    with not_p show ?thesis by simp
  next
    case (Suc j)
    have "(next_offset ?h + j) mod port_span ?h = (next_offset h + i) mod port_span h"
      by (simp add: off h(4) Suc mod_add_left_eq)
    with Suc.prems(4) have "unat q = unat (th_min_port ?h) + (next_offset ?h + j) mod port_span ?h"
      by (simp add: h(3))
    moreover from Suc Suc.prems(3) have "j < n" by simp
    ultimately show ?thesis using Suc.IH [OF h(1) rest] h(2) by simp
  qed
qed simp

text \<open>
  C31: a free port is found. When the configured range has at most 256 ports and some port of it is
  unused and can be bound, an Allocate request gets a relay port: unused, in the range and bound.
\<close>

theorem turn_port_search:
  assumes "turn_ok h" and "th_max_port h - th_min_port h < 256"
    and "th_min_port h \<le> p" "p \<le> th_max_port h" "p \<notin> th_ports h" "bind_ok ip p"
  shows "\<exists>q h'. bind_relay_socket bind_ok ip h = (Some q, h') \<and> q \<notin> th_ports h \<and> bind_ok ip q
    \<and> th_min_port h \<le> q \<and> q \<le> th_max_port h \<and> th_ports h' = insert q (th_ports h)"
proof -
  from assms(1) have c: "config_ok h" by (simp add: turn_ok_def)
  then have sub: "unat (th_max_port h - th_min_port h) = unat (th_max_port h) - unat (th_min_port h)"
    by (simp add: config_ok_def unat_sub)
  then have span: "min (unat (th_max_port h - th_min_port h) + 1) 256 = port_span h"
    using assms(2) by (simp add: port_span_def word_less_nat_alt)
  let ?t = "unat p - unat (th_min_port h)"
  let ?i = "(?t + port_span h - next_offset h) mod port_span h"
  note off = next_offset_less [OF c]
  have t: "?t < port_span h" "unat p = unat (th_min_port h) + ?t"
    using assms(3,4) by (simp_all add: port_span_def word_le_nat_alt)
  have "(next_offset h + ?i) mod port_span h = (next_offset h + (?t + port_span h - next_offset h)) mod port_span h"
    by (rule mod_add_right_eq)
  also have "\<dots> = ?t" using off t(1) by simp
  finally have q: "unat p = unat (th_min_port h) + (next_offset h + ?i) mod port_span h" using t(2) by simp
  have i: "?i < port_span h" using off by (intro mod_less_divisor) linarith
  obtain r h' where r: "bind_attempts (bind_ok ip) (port_span h) h = (r, h')" by fastforce
  have "r \<noteq> None"
    using bind_attempts_None [OF c _ i q, of "bind_ok ip"] r assms(5,6) by auto
  with bind_attempts_spec [OF c r] r span show ?thesis
    by (auto simp: bind_relay_socket_def)
qed

theorem turn_port_search_witness:
  "\<exists>q h'. bind_relay_socket (\<lambda>_ p. p = 50007) (V4 0) sample_server = (Some q, h') \<and> q = 50007"
proof -
  have "turn_ok sample_server" unfolding sample_server_def by (rule turn_new_ok) simp
  from turn_port_search [OF this, of 50007 "\<lambda>_ p. p = 50007" "V4 0"] show ?thesis
    by (auto simp: sample_server_def turn_new_def)
qed

section \<open>Delivery\<close>

lemma length_update_le: "length (AList.update k v xs) \<le> Suc (length xs)"
  by (induction xs) auto

lemma add_permission_room:
  assumes "length (al_permissions a) < MAX_PERMISSIONS"
  shows "fst (add_permission now ip a)" "length (al_permissions (snd (add_permission now ip a))) \<le> Suc (length (al_permissions a))"
proof -
  have le: "length (al_permissions (prune now a)) \<le> length (al_permissions a)" by (simp add: prune_def)
  with assms have r: "length (al_permissions (prune now a)) < MAX_PERMISSIONS" by linarith
  then show "fst (add_permission now ip a)" by (simp add: add_permission_def Let_def)
  from r le length_update_le [of ip "now + secs PERMISSION_LIFETIME_SECS" "al_permissions (prune now a)"]
  show "length (al_permissions (snd (add_permission now ip a))) \<le> Suc (length (al_permissions a))"
    by (simp add: add_permission_def Let_def)
qed

lemma grant_all_room:
  "length (al_permissions a) + length ips \<le> MAX_PERMISSIONS \<Longrightarrow> fst (grant_all add_permission now ips a)"
proof (induction ips arbitrary: a)
  case (Cons ip ips)
  then have r: "length (al_permissions a) < MAX_PERMISSIONS" by simp
  note add = add_permission_room [OF r, of now ip]
  from add(2) Cons.prems have "length (al_permissions (snd (add_permission now ip a))) + length ips \<le> MAX_PERMISSIONS"
    by simp
  from Cons.IH [OF this] add(1) show ?case by (simp add: case_prod_beta Let_def)
qed simp

lemma grant_all_expires: "al_expires (snd (grant_all add_permission now ips a)) = al_expires a"
proof (induction ips arbitrary: a)
  case (Cons ip ips)
  have "al_expires (snd (add_permission now ip b)) = al_expires b" for b
    by (simp add: add_permission_def Let_def prune_def)
  with Cons show ?case by (simp add: case_prod_beta Let_def)
qed simp

lemma decode_xor_address_tid:
  "transaction_id m = transaction_id m' \<Longrightarrow> decode_xor_address m v = decode_xor_address m' v"
  by (simp only: decode_xor_address_def)

text \<open>A Data indication tells the client the peer and the data.\<close>

lemma data_indication_decodes:
  assumes "length txid = 12" "length payload \<le> MAX_RELAY_PAYLOAD"
  shows "\<exists>m. stun_decode (data_indication C txid peer payload) = Inr m \<and> msg_type m = DataIndication
    \<and> get_xor_address XorPeerAddress m = Some peer \<and> map_option attr_value (get_attribute Data m) = Some payload"
proof -
  let ?m = "add_attribute Data payload (add_xor_address XorPeerAddress peer (stun_new DataIndication txid))"
  let ?x = "encode_xor_address (stun_new DataIndication txid) peer"
  have x: "length ?x \<le> 20"
    using assms(1) by (simp add: encode_xor_address_def stun_new_def split: ip_addr.split)
  have attrs: "attributes ?m = [\<lparr> attr_type = attr_to_u16 XorPeerAddress, attr_value = ?x \<rparr>,
      \<lparr> attr_type = attr_to_u16 Data, attr_value = payload \<rparr>]"
    by (simp add: add_attribute_def add_xor_address_def stun_new_def)
  have pad: "attr_padding n \<le> 3" for n by (simp add: attr_padding_def)
  have "encodable ?m"
    using assms x pad [of "length ?x"] pad [of "length payload"] unfolding encodable_def attrs
    by (simp add: add_attribute_def add_xor_address_def stun_new_def is_trailer_def length_encode_attribute
        MAX_RELAY_PAYLOAD_def)
  from decode_stun_encode [OF this, of "tc_crc C"] obtain c where
    dec: "stun_decode (data_indication C txid peer payload) = Inr (?m\<lparr>attributes :=
      attributes ?m @ [\<lparr> attr_type = attr_to_u16 Fingerprint, attr_value = c \<rparr>]\<rparr>)"
    unfolding data_indication_def attrs by (auto simp: is_trailer_def)
  have "decode_xor_address (?m\<lparr>attributes := as\<rparr>) ?x = Some peer" for as
  proof -
    have "decode_xor_address (?m\<lparr>attributes := as\<rparr>) ?x = decode_xor_address (stun_new DataIndication txid) ?x"
      by (rule decode_xor_address_tid) (simp add: add_attribute_def add_xor_address_def stun_new_def)
    with xor_address_roundtrip [of "stun_new DataIndication txid" peer] assms(1) show ?thesis by (simp add: stun_new_def)
  qed
  with dec show ?thesis unfolding attrs
    by (simp add: get_xor_address_def get_attribute_def) (simp add: add_attribute_def add_xor_address_def stun_new_def)
qed

text \<open>
  C26: a permission opens the relay in both directions. When the owner of a live allocation asks, with
  room in its table, for permissions for peers of the right family, then for the next 300 seconds (while
  the allocation lasts) a Send indication to each of them is forwarded unchanged from the allocation's
  port, and a datagram of up to 1500 bytes from any port there reaches the client, as ChannelData
  or as a Data indication naming the peer.
\<close>

theorem turn_permission_delivers:
  assumes "turn_ok h" and "authenticate C (th_realm h) (th_secret h) now msg raw = Inr auth"
    and "map_of (th_allocs h) client = Some a" "al_username a = auth_username auth"
    and "peers = get_all_xor_addresses XorPeerAddress msg" "sa_ip peer \<in> sa_ip ` set peers"
    and "\<And>q. q \<in> set peers \<Longrightarrow> is_ipv4 (sa_ip q) = is_ipv4 (sa_ip (al_relay_addr a))"
    and "length (al_permissions a) + length peers \<le> MAX_PERMISSIONS"
    and "now \<le> t" "t < now + secs PERMISSION_LIFETIME_SECS" "t < al_expires a"
    and "h' = fst (handle_create_permission C now msg client raw h)"
  shows "(\<forall>ind d. get_xor_address XorPeerAddress ind = Some peer \<longrightarrow> get_attribute Data ind = Some d \<longrightarrow>
        length (attr_value d) \<le> MAX_RELAY_PAYLOAD \<longrightarrow>
        ToPeer (al_socket a) peer (attr_value d) \<in> set (snd (handle_send_indication t ind client h')))
    \<and> (\<forall>task txid datagram. rt_client task = client \<longrightarrow> length txid = 12 \<longrightarrow> length datagram \<le> MAX_RELAY_PAYLOAD \<longrightarrow>
        (\<exists>out. ToClient client out \<in> set (snd (relay_recv C txid t task peer datagram h'))
          \<and> ((\<exists>ch. out = channel_data (ck_proto client) ch datagram)
            \<or> (\<exists>m. stun_decode out = Inr m \<and> msg_type m = DataIndication \<and> get_xor_address XorPeerAddress m = Some peer
                \<and> map_option attr_value (get_attribute Data m) = Some datagram))))"
proof -
  let ?b = "snd (grant_all add_permission now (map sa_ip peers) a)"
  from turn_ok_entry [OF assms(1,3)] have ok: "allocation_ok a" by (simp add: entry_ok_def)
  have room: "fst (grant_all add_permission now (map sa_ip peers) a)"
    using assms(8) by (intro grant_all_room) simp
  have "peers \<noteq> []" "\<not> (\<exists>q \<in> set peers. is_ipv4 (sa_ip q) \<noteq> is_ipv4 (sa_ip (al_relay_addr a)))"
    using assms(6,7) by auto
  with assms(2,3,4) room have h': "h' = set_alloc client ?b h"
    unfolding assms(12) by (simp add: handle_create_permission_def Let_def case_prod_beta assms(5))
  then have look: "map_of (th_allocs h') client = Some ?b" by (simp add: set_alloc_def update_conv')
  have perm: "has_permission t (sa_ip peer) ?b"
    using perms.grant_all_permits [OF ok room assms(9), of "sa_ip peer"] assms(6,10) by auto
  have live: "\<not> is_expired t ?b" using assms(11) by (simp add: is_expired_def grant_all_expires)
  have sock: "al_socket ?b = al_socket a" using grant_all_keeps [of a now "map sa_ip peers"] by (simp add: same_identity_def)
  have "ToPeer (al_socket a) peer (attr_value d) \<in> set (snd (handle_send_indication t ind client h'))"
    if "get_xor_address XorPeerAddress ind = Some peer" "get_attribute Data ind = Some d"
      "length (attr_value d) \<le> MAX_RELAY_PAYLOAD" for ind d
    using that look perm live sock by (simp add: handle_send_indication_def relayed_out_def)
  moreover have "\<exists>out. ToClient client out \<in> set (snd (relay_recv C txid t task peer datagram h'))
      \<and> ((\<exists>ch. out = channel_data (ck_proto client) ch datagram)
        \<or> (\<exists>m. stun_decode out = Inr m \<and> msg_type m = DataIndication \<and> get_xor_address XorPeerAddress m = Some peer
            \<and> map_option attr_value (get_attribute Data m) = Some datagram))"
    if "rt_client task = client" "length txid = 12" "length datagram \<le> MAX_RELAY_PAYLOAD" for task txid datagram
    using surjective_pairing [of "relay_recv C txid t task peer datagram h'"]
  proof (cases rule: relay_recv_outcome)
    case dropped
    with that look perm live show ?thesis
      by (simp add: relay_recv_def Let_def MAX_RELAY_PAYLOAD_def relayed_in_def)
  next
    case exits
    with that look show ?thesis by simp
  next
    case (relayed a' n out)
    have "(\<exists>ch. out = channel_data (ck_proto client) ch datagram) \<or> out = data_indication C txid peer datagram"
      using relayed(8) that(1) by (auto split: option.splits)
    with data_indication_decodes [OF that(2,3)] relayed(7) that(1) show ?thesis by (intro exI [of _ out]) auto
  qed
  ultimately show ?thesis by blast
qed

lemma sample_facts:
  "(case stun_decode sample_permission of
      Inr m \<Rightarrow> (case authenticate sample_crypto [114] [1] 4050000000000 m sample_permission of
          Inr au \<Rightarrow> auth_username au = [52, 49, 48, 48, 58, 97] | Inl _ \<Rightarrow> False)
        \<and> get_all_xor_addresses XorPeerAddress m = [sample_peer]
    | Inl _ \<Rightarrow> False)"
  "(case map_of (th_allocs sample_allocated) (rt_client sample_task) of
      Some a \<Rightarrow> al_username a = [52, 49, 48, 48, 58, 97] \<and> al_permissions a = [] \<and> is_ipv4 (sa_ip (al_relay_addr a))
        \<and> 4100000000000 < al_expires a
    | None \<Rightarrow> False)"
  "th_realm sample_allocated = [114]" "th_secret sample_allocated = [1]"
  by code_simp+

theorem turn_permission_delivers_witness:
  "\<exists>h' out. ToClient (rt_client sample_task) out
     \<in> set (snd (relay_recv sample_crypto (replicate 12 1) 4100000000000 sample_task sample_peer [9] h'))"
proof -
  from sample_facts(1) obtain m au where m: "get_all_xor_addresses XorPeerAddress m = [sample_peer]"
    "authenticate sample_crypto (th_realm sample_allocated) (th_secret sample_allocated) 4050000000000 m sample_permission = Inr au"
    "auth_username au = [52, 49, 48, 48, 58, 97]"
    by (auto simp: sample_facts(3,4) split: sum.splits)
  from sample_facts(2) obtain a where a: "map_of (th_allocs sample_allocated) (rt_client sample_task) = Some a"
    "al_username a = auth_username au" "al_permissions a = []" "is_ipv4 (sa_ip (al_relay_addr a))" "4100000000000 < al_expires a"
    by (auto simp: m(3) split: option.splits)
  have "turn_ok sample_server" unfolding sample_server_def by (rule turn_new_ok) simp
  then have ok: "turn_ok sample_allocated"
    unfolding sample_allocated_def sample_serve_def by (rule serve_udp_ok)
  have side: "sa_ip sample_peer \<in> sa_ip ` set [sample_peer]"
    "\<And>q. q \<in> set [sample_peer] \<Longrightarrow> is_ipv4 (sa_ip q) = is_ipv4 (sa_ip (al_relay_addr a))"
    "length (al_permissions a) + length [sample_peer] \<le> MAX_PERMISSIONS"
    "(4050000000000 :: int) \<le> 4100000000000" "4100000000000 < 4050000000000 + secs PERMISSION_LIFETIME_SECS"
    using a(3,4) by (simp_all add: sample_peer_def PERMISSION_LIFETIME_SECS_def secs_def MAX_PERMISSIONS_def)
  from conjunct2 [OF turn_permission_delivers [OF ok m(2) a(1,2) m(1) [symmetric] side a(5) refl],
      rule_format, of sample_task "replicate 12 1" "[9]"]
  show ?thesis by (auto simp: MAX_RELAY_PAYLOAD_def)
qed

section \<open>Framing on TCP\<close>

lemma msg_from_u16_Some: "msg_from_u16 v = Some t \<Longrightarrow> v = msg_to_u16 t"
  by (auto simp: msg_from_u16_def split: if_splits)

lemma be16_high: "data ! i = ucast (drop_bit 8 (be16_at data i))"
proof -
  have "to_be 2 (of_be [data ! i, data ! (i + 1)] :: u16) = [data ! i, data ! (i + 1)]"
    using to_be_of_be [of "[data ! i, data ! (i + 1)]", where ?'a = 16] by (simp add: numeral_2_eq_2)
  then show ?thesis unfolding to_be_2 be16_at_def by (simp only: list.inject)
qed

lemma request_kind: "ucast (drop_bit 8 (msg_to_u16 t)) AND (0xC0 :: u8) = 0"
  by (cases t) simp_all

lemma channel_kind:
  assumes "is_channel_number ch"
  shows "ucast (drop_bit 8 ch) AND (0xC0 :: u8) = 0x40"
proof -
  have "0x40 \<le> unat ch div 256" "unat ch div 256 \<le> 0x4F"
    using assms by (auto simp: is_channel_number_def word_le_nat_alt)
  moreover have "unat (drop_bit 8 ch) = unat ch div 256" by (simp add: drop_bit_eq_div unat_div)
  ultimately have "unat (ucast (drop_bit 8 ch) :: u8) \<in> {0x40..0x4F}"
    by (simp add: unsigned_ucast_eq take_bit_nat_eq_self)
  then have "unat (ucast (drop_bit 8 ch) :: u8) \<in> set [0x40..<0x50]" unfolding set_upt atLeastLessThan_iff by simp
  moreover have "list_all (\<lambda>n. (of_nat n AND 0xC0 :: u8) = 0x40) [0x40..<0x50]" by code_simp
  ultimately have "(of_nat (unat (ucast (drop_bit 8 ch) :: u8)) AND 0xC0 :: u8) = 0x40" by (simp only: list_all_iff)
  then show ?thesis by simp
qed

lemma be16_at_take: "i + 1 < k \<Longrightarrow> be16_at (take k f) i = be16_at f i"
  by (simp add: be16_at_def)

lemma be16_at_prefix: "i + 1 < length f \<Longrightarrow> be16_at (f @ rest) i = be16_at f i"
  by (simp add: be16_at_def nth_append)

lemma frame_of_channel:
  assumes kind: "f ! 0 AND 0xC0 = 0x40" and len: "4 \<le> length f" "length f \<le> TCP_MAX_FRAME"
    and n: "length f = 4 + unat (be16_at f 2) + (4 - unat (be16_at f 2) mod 4) mod 4"
  shows "next_tcp_frame (f @ rest) = Frame f rest \<and> (\<forall>k. k < length f \<longrightarrow> next_tcp_frame (take k f) = Wait)"
proof (intro conjI allI impI)
  have "tcp_frame_len (f @ rest) = Some (length f)"
    using kind len n by (simp add: tcp_frame_len_def nth_append be16_at_prefix Let_def)
  then show "next_tcp_frame (f @ rest) = Frame f rest" using len by (simp add: next_tcp_frame_def)
  fix k assume k: "k < length f"
  have "tcp_frame_len (take k f) = (if k < 4 then None else Some (length f))"
    using kind len n k by (simp add: tcp_frame_len_def be16_at_take Let_def)
  then show "next_tcp_frame (take k f) = Wait" using len k by (simp add: next_tcp_frame_def)
qed

lemma frame_of_stun:
  assumes kind: "f ! 0 AND 0xC0 = 0" and len: "20 \<le> length f" "length f \<le> TCP_MAX_FRAME"
    and cookie: "(of_be [f ! 4, f ! 5, f ! 6, f ! 7] :: u32) = STUN_MAGIC_COOKIE"
    and n: "length f = 20 + unat (be16_at f 2)"
  shows "next_tcp_frame (f @ rest) = Frame f rest \<and> (\<forall>k. k < length f \<longrightarrow> next_tcp_frame (take k f) = Wait)"
proof (intro conjI allI impI)
  have "tcp_frame_len (f @ rest) = Some (length f)"
    using kind len n cookie
    by (simp add: tcp_frame_len_def nth_append be16_at_prefix Let_def stun_frame_len_def STUN_HEADER_SIZE_def)
  then show "next_tcp_frame (f @ rest) = Frame f rest" using len by (simp add: next_tcp_frame_def)
  fix k assume k: "k < length f"
  have "tcp_frame_len (take k f) = (if k < 20 then None else Some (length f))"
    using kind len n k cookie
    by (simp add: tcp_frame_len_def be16_at_take Let_def stun_frame_len_def STUN_HEADER_SIZE_def)
  then show "next_tcp_frame (take k f) = Wait" using len k by (simp add: next_tcp_frame_def)
qed

lemma stun_decode_layout:
  assumes "stun_decode f = Inr m"
  shows "20 \<le> length f \<and> length f = 20 + unat (be16_at f 2) \<and> be16_at f 0 = msg_to_u16 (msg_type m)
    \<and> (of_be [f ! 4, f ! 5, f ! 6, f ! 7] :: u32) = STUN_MAGIC_COOKIE"
  using assms msg_from_u16_Some [of "be16_at f 0"]
  by (auto simp: stun_decode_def STUN_HEADER_SIZE_def Let_def split: if_splits option.splits sum.splits)

lemma channel_data_layout:
  "length (channel_data Tcp ch payload) = 4 + length payload + (4 - length payload mod 4) mod 4"
  "be16_at (channel_data Tcp ch payload) 0 = ch"
  "length payload < 65536 \<Longrightarrow> unat (be16_at (channel_data Tcp ch payload) 2) = length payload"
  using be16_at_encoded [of "[]" ch] be16_at_encoded [of "to_be 2 ch" "of_nat (length payload)"]
  by (simp_all add: channel_data_def unat_of_nat)

text \<open>
  C33: TCP frames delimit themselves. Every decodable STUN message and every ChannelData frame the server
  writes for a TCP client, up to 64 KiB, is cut off the head of the stream exactly, whatever follows it,
  and as long as a part of it is missing the server waits: how TCP splits the stream does not matter.
\<close>

theorem turn_tcp_framing:
  assumes "(\<exists>m. stun_decode f = Inr m) \<or> (\<exists>ch payload. is_channel_number ch \<and> f = channel_data Tcp ch payload)"
    and "length f \<le> TCP_MAX_FRAME"
  shows "next_tcp_frame (f @ rest) = Frame f rest \<and> (\<forall>k. k < length f \<longrightarrow> next_tcp_frame (take k f) = Wait)"
  using assms(1)
proof (elim disjE exE conjE)
  fix m assume "stun_decode f = Inr m"
  note l = stun_decode_layout [OF this]
  with be16_high [of f 0] request_kind [of "msg_type m"] have "f ! 0 AND 0xC0 = 0" by simp
  with l assms(2) show ?thesis by (intro frame_of_stun) simp_all
next
  fix ch payload assume ch: "is_channel_number ch" and f: "f = channel_data Tcp ch payload"
  note l = channel_data_layout(1,2) [of ch payload] channel_data_layout(3) [of payload ch]
  from assms(2) have "length payload < 65536" unfolding f l(1) by (simp add: TCP_MAX_FRAME_def)
  note n = l(3) [OF this]
  have "f ! 0 AND 0xC0 = 0x40" using be16_high [of f 0] channel_kind [OF ch] l(2) f by simp
  then show ?thesis using l(1) n assms(2) unfolding f by (intro frame_of_channel) simp_all
qed

theorem turn_tcp_framing_witness:
  "next_tcp_frame (channel_data Tcp 0x4000 [1, 2, 3] @ [7, 7]) = Frame (channel_data Tcp 0x4000 [1, 2, 3]) [7, 7]"
  by (rule conjunct1 [OF turn_tcp_framing])
    (auto simp: is_channel_number_def channel_data_layout TCP_MAX_FRAME_def intro!: exI [of _ "0x4000"] exI [of _ "[1, 2, 3]"])

end
