(* ===== verification/Cascade_Relay.thy ===== *)
theory Cascade_Relay
  imports Cascade_Link Replay "HOL-Library.AList" "HOL-Library.Product_Lexorder"
begin

text \<open>
  The cascade relay of a media node, \<^verbatim>\<open>aurix-media/src/cascade.rs\<close>: which peers it accepts envelopes
  from, the per-channel routes, forwarding of local and of relayed audio, authentication with the
  per-peer replay window, link probes and the choice of transport. A \<^verbatim>\<open>DashMap\<close> or \<^verbatim>\<open>BTreeMap\<close> is an
  association list, a \<^verbatim>\<open>HashSet\<close> the list of its elements in iteration order. A handler gives the
  new state and the datagrams it sends, each with its transport. Sockets, TCP connection tasks and
  metrics are not modelled; whether a TCP queue takes a frame is the parameter \<open>queue_ok\<close>.

  The lemmas show which parts of the state the handlers leave alone and what an accepted envelope has
  passed.
\<close>

section \<open>Addresses in order\<close>

text \<open>The order of \<^verbatim>\<open>SocketAddr\<close>: IPv4 before IPv6, then the address, then the port.\<close>

definition addr_key :: "socket_addr \<Rightarrow> bool \<times> u128 \<times> u16" where
  "addr_key a = (\<not> is_ipv4 (sa_ip a), (case sa_ip a of V4 x \<Rightarrow> ucast x | V6 x \<Rightarrow> x), sa_port a)"

definition sort_dedup :: "socket_addr list \<Rightarrow> socket_addr list" where
  "sort_dedup as = remdups_adj (sort_key addr_key as)"

lemma ucast_32_128_inject: "(ucast (x :: u32) :: u128) = ucast y \<longleftrightarrow> x = y"
proof -
  have "ucast (ucast z :: u128) = z" for z :: u32
    by (rule bit_word_eqI) (simp add: bit_simps)
  then show ?thesis by metis
qed

lemma addr_key_inject: "addr_key a = addr_key b \<longleftrightarrow> a = b"
proof
  assume eq: "addr_key a = addr_key b"
  then have "sa_port a = sa_port b" by (simp add: addr_key_def)
  moreover from eq have "sa_ip a = sa_ip b"
    by (cases "sa_ip a"; cases "sa_ip b") (simp_all add: addr_key_def ucast_32_128_inject)
  ultimately show "a = b" by (cases a; cases b) simp
qed simp

lemma set_sort_dedup [simp]: "set (sort_dedup as) = set as"
  by (simp add: sort_dedup_def)

lemma distinct_remdups_adj_key:
  "sorted (map f xs) \<Longrightarrow> (\<And>x y. f x = f y \<Longrightarrow> x = y) \<Longrightarrow> distinct (remdups_adj xs)"
proof (induction xs rule: remdups_adj.induct)
  case (3 x y xs)
  show ?case
  proof (cases "x = y")
    case True
    with 3 show ?thesis by simp
  next
    case False
    have "x \<notin> set (y # xs)"
    proof
      assume "x \<in> set (y # xs)"
      with 3(3) have "f y \<le> f x" by auto
      moreover from 3(3) have "f x \<le> f y" by simp
      ultimately have "f x = f y" by (rule order.antisym [rotated])
      with 3(4) False show False by blast
    qed
    with 3 False show ?thesis by simp
  qed
qed simp_all

lemma distinct_sort_dedup [simp]: "distinct (sort_dedup as)"
  unfolding sort_dedup_def
  by (rule distinct_remdups_adj_key [of addr_key]) (simp_all add: addr_key_inject)

section \<open>State\<close>

type_synonym channel_id = uuid

definition channel_id_hash :: "checksum \<Rightarrow> channel_id \<Rightarrow> u32" where
  "channel_id_hash crc c = crc (to_be 16 c)"

record channel_route =
  ro_origin :: "socket_addr list"
  ro_forward :: "(socket_addr \<times> socket_addr list) list"

definition route_default :: channel_route where
  "route_default = \<lparr> ro_origin = [], ro_forward = [] \<rparr>"

definition route_mesh :: "socket_addr list \<Rightarrow> channel_route" where
  "route_mesh peers = \<lparr> ro_origin = peers, ro_forward = [] \<rparr>"

definition route_is_empty :: "channel_route \<Rightarrow> bool" where
  "route_is_empty r \<longleftrightarrow> ro_origin r = [] \<and> (\<forall>(_, ts) \<in> set (ro_forward r). ts = [])"

definition route_is_hub :: "channel_route \<Rightarrow> bool" where
  "route_is_hub r \<longleftrightarrow> (\<exists>(_, ts) \<in> set (ro_forward r). ts \<noteq> [])"

record media_crypto =
  mc_mac :: mac
  mc_ks :: keystream
  mc_crc :: checksum

record cascade_relay =
  re_routes :: "(channel_id \<times> channel_route) list"
  re_by_hash :: "(u32 \<times> channel_id) list"
  re_allowed :: "(socket_addr \<times> wide_state) list"
  re_static :: "socket_addr list"
  re_dynamic :: "socket_addr list"
  re_links :: "(socket_addr \<times> link_state) list"
  re_tcp_links :: "socket_addr list"
  re_tcp_enabled :: bool
  re_keys :: media_keys
  re_ssrc :: u32
  re_counter :: u64
  re_dropped :: "(socket_addr \<times> instant) list"
  re_inbound_tcp :: nat
  re_advertised :: "socket_addr list"
  re_local_addr :: socket_addr
  re_started :: instant
  re_probe_interval :: int

definition UDP_PROBES_BEFORE_TCP :: u32 where "UDP_PROBES_BEFORE_TCP = 3"
definition MAX_PLAUSIBLE_RTT :: int where "MAX_PLAUSIBLE_RTT = 30 * 1000000000"
definition TCP_CONNECT_BACKOFF_MIN :: int where "TCP_CONNECT_BACKOFF_MIN = 200 * 1000000"
definition TCP_CONNECT_BACKOFF_MAX :: int where "TCP_CONNECT_BACKOFF_MAX = 5 * 1000000000"
definition TCP_IDLE_CLOSE :: int where "TCP_IDLE_CLOSE = 30 * 1000000000"
definition MAX_INBOUND_TCP :: nat where "MAX_INBOUND_TCP = 1024"

datatype cascade_error = AuthorizationDenied | AuthenticationFailed | CascadeTransport | InvalidConfiguration

definition initial_relay_counter :: "u64 \<Rightarrow> u64" where
  "initial_relay_counter secs = push_bit 32 (secs AND 0xFFFFFFFF)"

text \<open>
  The configured peers, parsed: \<open>parse\<close> is \<^verbatim>\<open>str::parse\<close> for a socket address and \<open>can_reach\<close> whether
  the bound socket serves the address family.
\<close>

fun configured_peers ::
  "(bytes \<Rightarrow> socket_addr option) \<Rightarrow> (socket_addr \<Rightarrow> bool) \<Rightarrow> bytes list \<Rightarrow> socket_addr list
   \<Rightarrow> cascade_error + socket_addr list" where
  "configured_peers parse can_reach [] acc = Inr acc"
| "configured_peers parse can_reach (p # ps) acc =
     (case parse p of
        None \<Rightarrow> Inl InvalidConfiguration
      | Some a \<Rightarrow>
          (let addr = canonical a
           in if \<not> can_reach addr then Inl InvalidConfiguration
              else configured_peers parse can_reach ps (List.insert addr acc)))"

definition with_sockets ::
  "mac \<Rightarrow> (bytes \<Rightarrow> socket_addr option) \<Rightarrow> (socket_addr \<Rightarrow> bool) \<Rightarrow> socket_addr \<Rightarrow> bool \<Rightarrow> bytes \<Rightarrow> bytes list
   \<Rightarrow> bool \<Rightarrow> int \<Rightarrow> u32 \<Rightarrow> u64 \<Rightarrow> instant \<Rightarrow> cascade_error + cascade_relay" where
  "with_sockets mac parse can_reach local_addr listener secret peers tcp_fallback probe_interval ssrc secs now =
     (if length secret < 16 then Inl InvalidConfiguration
      else case configured_peers parse can_reach peers [] of
        Inl e \<Rightarrow> Inl e
      | Inr static \<Rightarrow>
          Inr \<lparr> re_routes = [], re_by_hash = [],
                re_allowed = map (\<lambda>a. (a, wide_default)) static, re_static = static, re_dynamic = [],
                re_links = map (\<lambda>a. (a, link_default)) static, re_tcp_links = [],
                re_tcp_enabled = (tcp_fallback \<and> listener), re_keys = derive mac secret, re_ssrc = ssrc,
                re_counter = initial_relay_counter secs, re_dropped = [], re_inbound_tcp = 0,
                re_advertised = [], re_local_addr = local_addr, re_started = now,
                re_probe_interval = probe_interval \<rparr>)"

definition set_advertised :: "socket_addr list \<Rightarrow> cascade_relay \<Rightarrow> cascade_relay" where
  "set_advertised addrs r = r\<lparr>re_advertised := addrs\<rparr>"

definition relay_shutdown :: "cascade_relay \<Rightarrow> cascade_relay" where
  "relay_shutdown r = r\<lparr>re_tcp_links := []\<rparr>"

definition is_allowed :: "cascade_relay \<Rightarrow> socket_addr \<Rightarrow> bool" where
  "is_allowed r a \<longleftrightarrow> map_of (re_allowed r) a \<noteq> None"

definition hello_addr_for :: "socket_addr \<Rightarrow> cascade_relay \<Rightarrow> socket_addr" where
  "hello_addr_for peer r =
     (case List.find (\<lambda>a. is_ipv4 (sa_ip a) = is_ipv4 (sa_ip peer)) (re_advertised r) of
        Some a \<Rightarrow> a
      | None \<Rightarrow> (case re_advertised r of a # _ \<Rightarrow> a | [] \<Rightarrow> re_local_addr r))"

definition link_max_age :: "cascade_relay \<Rightarrow> int" where
  "link_max_age r = max (re_probe_interval r * (uint UDP_PROBES_BEFORE_TCP + 1)) (3 * 1000000000)"

definition tcp_backoff :: "cascade_relay \<Rightarrow> int" where
  "tcp_backoff r =
     min (max (re_probe_interval r * 5) TCP_CONNECT_BACKOFF_MIN) TCP_CONNECT_BACKOFF_MAX"

section \<open>Peers and routes\<close>

text \<open>\<^verbatim>\<open>entry(k).or_insert(v)\<close>\<close>

definition or_insert :: "'k \<Rightarrow> 'v \<Rightarrow> ('k \<times> 'v) list \<Rightarrow> ('k \<times> 'v) list" where
  "or_insert k v xs = (case map_of xs k of Some _ \<Rightarrow> xs | None \<Rightarrow> AList.update k v xs)"

definition discover_peer :: "socket_addr \<Rightarrow> cascade_relay \<Rightarrow> cascade_relay" where
  "discover_peer a r = r\<lparr>re_allowed := or_insert a wide_default (re_allowed r),
     re_links := or_insert a link_default (re_links r)\<rparr>"

definition forget_in_route :: "socket_addr \<Rightarrow> channel_route \<Rightarrow> channel_route" where
  "forget_in_route a ro = \<lparr> ro_origin = filter (\<lambda>b. b \<noteq> a) (ro_origin ro),
     ro_forward = map (\<lambda>(k, ts). (k, filter (\<lambda>b. b \<noteq> a) ts)) (AList.delete a (ro_forward ro)) \<rparr>"

definition forget_peer :: "socket_addr \<Rightarrow> cascade_relay \<Rightarrow> cascade_relay" where
  "forget_peer a r =
     (if a \<in> set (re_static r) then r
      else r\<lparr>re_allowed := AList.delete a (re_allowed r), re_links := AList.delete a (re_links r),
             re_tcp_links := filter (\<lambda>b. b \<noteq> a) (re_tcp_links r),
             re_routes := map (\<lambda>(c, ro). (c, forget_in_route a ro)) (re_routes r)\<rparr>)"

definition set_dynamic_peers :: "socket_addr list \<Rightarrow> cascade_relay \<Rightarrow> cascade_relay" where
  "set_dynamic_peers peers r =
     (let current = re_dynamic r;
          r = fold discover_peer (filter (\<lambda>a. a \<notin> set current) peers) r;
          r = fold forget_peer (filter (\<lambda>a. a \<notin> set peers) current) r
      in r\<lparr>re_dynamic := peers\<rparr>)"

definition add_peer :: "checksum \<Rightarrow> channel_id \<Rightarrow> socket_addr \<Rightarrow> cascade_relay \<Rightarrow> cascade_error + cascade_relay" where
  "add_peer crc channel peer r =
     (if \<not> is_allowed r peer then Inl AuthorizationDenied
      else
        (let ro = (case map_of (re_routes r) channel of Some ro \<Rightarrow> ro | None \<Rightarrow> route_default);
             ro = (if peer \<in> set (ro_origin ro) then ro else ro\<lparr>ro_origin := ro_origin ro @ [peer]\<rparr>)
         in Inr (r\<lparr>re_routes := AList.update channel ro (re_routes r),
                   re_by_hash := AList.update (channel_id_hash crc channel) channel (re_by_hash r)\<rparr>)))"

text \<open>The route as it is installed.\<close>

definition usable_route :: "(socket_addr \<Rightarrow> bool) \<Rightarrow> channel_route \<Rightarrow> channel_route" where
  "usable_route allowed route =
     \<lparr> ro_origin = sort_dedup (filter allowed (ro_origin route)),
       ro_forward = filter (\<lambda>(_, ts). ts \<noteq> [])
         (map (\<lambda>(from, ts). (from, sort_dedup (filter (\<lambda>t. t \<noteq> from \<and> allowed t) ts)))
           (filter (\<lambda>(from, _). allowed from) (ro_forward route))) \<rparr>"

text \<open>\<^verbatim>\<open>DashMap::remove_if\<close>\<close>

definition remove_if :: "'k \<Rightarrow> ('v \<Rightarrow> bool) \<Rightarrow> ('k \<times> 'v) list \<Rightarrow> ('k \<times> 'v) list" where
  "remove_if k P xs = (case map_of xs k of Some v \<Rightarrow> if P v then AList.delete k xs else xs | None \<Rightarrow> xs)"

definition remove_channel :: "checksum \<Rightarrow> channel_id \<Rightarrow> cascade_relay \<Rightarrow> cascade_relay" where
  "remove_channel crc channel r =
     r\<lparr>re_routes := AList.delete channel (re_routes r),
       re_by_hash := remove_if (channel_id_hash crc channel) (\<lambda>c. c = channel) (re_by_hash r)\<rparr>"

definition set_channel_route :: "checksum \<Rightarrow> channel_id \<Rightarrow> channel_route \<Rightarrow> cascade_relay \<Rightarrow> cascade_relay" where
  "set_channel_route crc channel route r =
     (let route = usable_route (is_allowed r) route; hash = channel_id_hash crc channel
      in if route_is_empty route then
           r\<lparr>re_routes := AList.delete channel (re_routes r),
             re_by_hash := remove_if hash (\<lambda>c. c = channel) (re_by_hash r)\<rparr>
         else
           r\<lparr>re_routes := AList.update channel route (re_routes r),
             re_by_hash := AList.update hash channel (re_by_hash r)\<rparr>)"

definition set_channel_peers :: "checksum \<Rightarrow> channel_id \<Rightarrow> socket_addr list \<Rightarrow> cascade_relay \<Rightarrow> cascade_relay" where
  "set_channel_peers crc channel peers r = set_channel_route crc channel (route_mesh peers) r"

definition retain_channels :: "checksum \<Rightarrow> channel_id list \<Rightarrow> cascade_relay \<Rightarrow> cascade_relay" where
  "retain_channels crc keep r =
     fold (remove_channel crc) (filter (\<lambda>c. c \<notin> set keep) (map fst (re_routes r))) r"

definition add_all_peers :: "checksum \<Rightarrow> channel_id \<Rightarrow> cascade_relay \<Rightarrow> cascade_relay" where
  "add_all_peers crc channel r =
     fold (\<lambda>peer r. case add_peer crc channel peer r of Inr r \<Rightarrow> r | Inl _ \<Rightarrow> r) (re_static r) r"

definition remove_peer :: "channel_id \<Rightarrow> socket_addr \<Rightarrow> cascade_relay \<Rightarrow> cascade_relay" where
  "remove_peer channel peer r =
     (case map_of (re_routes r) channel of
        Some ro \<Rightarrow> r\<lparr>re_routes := AList.update channel
                       (ro\<lparr>ro_origin := filter (\<lambda>a. a \<noteq> peer) (ro_origin ro)\<rparr>) (re_routes r)\<rparr>
      | None \<Rightarrow> r)"

definition channel_peers :: "channel_id \<Rightarrow> cascade_relay \<Rightarrow> socket_addr list" where
  "channel_peers channel r = (case map_of (re_routes r) channel of Some ro \<Rightarrow> ro_origin ro | None \<Rightarrow> [])"

definition has_peers :: "channel_id \<Rightarrow> cascade_relay \<Rightarrow> bool" where
  "has_peers channel r =
     (case map_of (re_routes r) channel of Some ro \<Rightarrow> ro_origin ro \<noteq> [] | None \<Rightarrow> False)"

section \<open>Sending\<close>

datatype send = SendUdp socket_addr bytes | SendTcp socket_addr bytes

definition transport_for :: "socket_addr \<Rightarrow> instant \<Rightarrow> int \<Rightarrow> cascade_relay \<Rightarrow> link_transport" where
  "transport_for peer now max_age r =
     (case map_of (re_links r) peer of
        Some state \<Rightarrow> if re_tcp_enabled r then link_transport_of now max_age state else LinkUdp
      | None \<Rightarrow> LinkUdp)"

definition send_tcp ::
  "(socket_addr \<Rightarrow> bool) \<Rightarrow> socket_addr \<Rightarrow> bytes \<Rightarrow> instant \<Rightarrow> cascade_relay \<Rightarrow> cascade_relay \<times> send list" where
  "send_tcp queue_ok peer data now r =
     (if peer \<notin> set (re_tcp_links r) then (r, [])
      else if queue_ok peer then
        (r\<lparr>re_links := (case map_of (re_links r) peer of
             Some state \<Rightarrow> AList.update peer (state\<lparr>ls_tcp_used := Some now\<rparr>) (re_links r)
           | None \<Rightarrow> re_links r)\<rparr>,
         [SendTcp peer (cascade_frame data)])
      else (r, []))"

fun send_all ::
  "(socket_addr \<Rightarrow> bool) \<Rightarrow> instant \<Rightarrow> bytes \<Rightarrow> socket_addr list \<Rightarrow> cascade_relay \<Rightarrow> cascade_relay \<times> send list" where
  "send_all queue_ok now data [] r = (r, [])"
| "send_all queue_ok now data (peer # peers) r =
     (let (r, out) = (case transport_for peer now (link_max_age r) r of
                        LinkUdp \<Rightarrow> (r, [SendUdp peer data])
                      | LinkTcp \<Rightarrow> send_tcp queue_ok peer data now r);
          (r, rest) = send_all queue_ok now data peers r
      in (r, out @ rest))"

definition forward_to_peers ::
  "media_crypto \<Rightarrow> (socket_addr \<Rightarrow> bool) \<Rightarrow> instant \<Rightarrow> channel_id \<Rightarrow> uuid \<Rightarrow> aurix_packet \<Rightarrow> u8 option
   \<Rightarrow> cascade_relay \<Rightarrow> cascade_relay \<times> send list" where
  "forward_to_peers M queue_ok now channel sender packet level r =
     (if has_flag RelayFlag (p_header packet) then (r, [])
      else case map_of (re_routes r) channel of
        None \<Rightarrow> (r, [])
      | Some ro \<Rightarrow>
          (if ro_origin ro = [] then (r, [])
           else
             (let packet = (case level of Some l \<Rightarrow> with_audio_level packet l | None \<Rightarrow> packet);
                  counter = re_counter r;
                  data = seal (mc_mac M) (mc_ks M) (mc_crc M)
                    (relay_envelope (mc_crc M) packet (re_ssrc r) counter sender) (re_keys r)
              in send_all queue_ok now data (ro_origin ro) (r\<lparr>re_counter := counter + 1\<rparr>))))"

definition seal_control :: "media_crypto \<Rightarrow> cascade_control \<Rightarrow> cascade_relay \<Rightarrow> cascade_relay \<times> bytes" where
  "seal_control M control r =
     (let counter = re_counter r
      in (r\<lparr>re_counter := counter + 1\<rparr>,
          seal (mc_mac M) (mc_ks M) (mc_crc M)
            (relay_envelope (mc_crc M) (control_to_packet control) (re_ssrc r) counter 0) (re_keys r)))"

definition nonce_now :: "instant \<Rightarrow> cascade_relay \<Rightarrow> u64" where
  "nonce_now now r = word_of_int (duration_since now (re_started r) div 1000)"

definition rtt_from_nonce :: "instant \<Rightarrow> u64 \<Rightarrow> cascade_relay \<Rightarrow> u32 option" where
  "rtt_from_nonce now n r =
     (let t = nonce_now now r
      in if n > t then None
         else
           (let elapsed = uint (t - n) * 1000
            in if elapsed \<le> MAX_PLAUSIBLE_RTT then Some (word_of_int (elapsed div 1000000)) else None))"

definition link_reports :: "instant \<Rightarrow> cascade_relay \<Rightarrow> link_report list" where
  "link_reports now r =
     map (\<lambda>(peer, state).
       let confirmed = link_confirmed now (link_max_age r) state
       in \<lparr> lr_peer = peer, lr_transport = map_option fst confirmed, lr_rtt_ms = map_option snd confirmed \<rparr>)
     (re_links r)"

section \<open>Relayed audio\<close>

record inbound_relay =
  in_sender :: uuid
  in_hops :: u8
  in_packet :: aurix_packet

datatype inbound = InAudio inbound_relay | InControl cascade_control

definition forward_targets :: "u32 \<Rightarrow> socket_addr \<Rightarrow> u8 \<Rightarrow> cascade_relay \<Rightarrow> socket_addr list option" where
  "forward_targets hash src hops r =
     (case map_of (re_by_hash r) hash of
        None \<Rightarrow> None
      | Some channel \<Rightarrow>
          (case map_of (re_routes r) channel of
             None \<Rightarrow> None
           | Some route \<Rightarrow>
               (case map_of (ro_forward route) src of
                  None \<Rightarrow> None
                | Some targets \<Rightarrow>
                    (if targets = [] then None
                     else if hops \<ge> MAX_RELAY_HOPS then Some []
                     else Some (filter (\<lambda>t. t \<noteq> src) targets)))))"

definition forward_inbound ::
  "media_crypto \<Rightarrow> (socket_addr \<Rightarrow> bool) \<Rightarrow> instant \<Rightarrow> socket_addr \<Rightarrow> inbound_relay \<Rightarrow> cascade_relay
   \<Rightarrow> cascade_relay \<times> send list" where
  "forward_inbound M queue_ok now src msg r =
     (case forward_targets (h_channel (p_header (in_packet msg))) src (in_hops msg) r of
        None \<Rightarrow> (r, [])
      | Some targets \<Rightarrow>
          (if targets = [] then (r, [])
           else
             (let counter = re_counter r;
                  data = seal (mc_mac M) (mc_ks M) (mc_crc M)
                    (relay_envelope_hop (mc_crc M) (in_packet msg) (re_ssrc r) counter (in_sender msg)
                      (in_hops msg + 1)) (re_keys r)
              in send_all queue_ok now data targets (r\<lparr>re_counter := counter + 1\<rparr>))))"

definition open_envelope ::
  "media_crypto \<Rightarrow> bytes \<Rightarrow> cascade_relay \<Rightarrow> cascade_error + u64 \<times> uuid \<times> u8 option \<times> aurix_packet" where
  "open_envelope M data r =
     (case decode_bounded (mc_crc M) data MAX_RELAY_PACKET_SIZE of
        Inl _ \<Rightarrow> Inl CascadeTransport
      | Inr envelope \<Rightarrow>
          (if h_type (p_header envelope) \<noteq> Relay \<or> \<not> has_flag RelayFlag (p_header envelope)
           then Inl CascadeTransport
           else
             (let (ok, envelope) = open_packet (mc_mac M) (mc_ks M) (mc_crc M) (re_keys r) envelope
              in if \<not> ok then Inl AuthenticationFailed
                 else
                   (let counter = push_bit 32 (ucast (h_timestamp (p_header envelope)))
                          OR ucast (h_sequence (p_header envelope)) :: u64
                    in case relay_inner_hop (mc_crc M) envelope of
                         Inl _ \<Rightarrow> Inl CascadeTransport
                       | Inr (sender, hop, inner) \<Rightarrow> Inr (counter, sender, hop, inner)))))"

definition replay_check :: "socket_addr \<Rightarrow> u64 \<Rightarrow> cascade_relay \<Rightarrow> (cascade_error + unit) \<times> cascade_relay" where
  "replay_check src counter r =
     (case map_of (re_allowed r) src of
        None \<Rightarrow> (Inl AuthorizationDenied, r)
      | Some w \<Rightarrow>
          (let (ok, w) = wide_check_and_update_u64 counter w;
               r = r\<lparr>re_allowed := AList.update src w (re_allowed r)\<rparr>
           in if ok then (Inr (), r) else (Inl AuthenticationFailed, r)))"

definition authenticate_envelope ::
  "media_crypto \<Rightarrow> bytes \<Rightarrow> socket_addr \<Rightarrow> cascade_relay \<Rightarrow> (cascade_error + inbound) \<times> cascade_relay" where
  "authenticate_envelope M data src r =
     (if \<not> is_allowed r src then (Inl AuthorizationDenied, r)
      else case open_envelope M data r of
        Inl e \<Rightarrow> (Inl e, r)
      | Inr (counter, sender, hop, inner) \<Rightarrow>
          (case replay_check src counter r of
             (Inl e, r) \<Rightarrow> (Inl e, r)
           | (Inr _, r) \<Rightarrow>
               (case control_from_packet inner of
                  Inl _ \<Rightarrow> (Inl CascadeTransport, r)
                | Inr (Some control) \<Rightarrow> (Inr (InControl control), r)
                | Inr None \<Rightarrow>
                    (if h_type (p_header inner) \<noteq> Audio \<and> h_type (p_header inner) \<noteq> AudioFec
                     then (Inl CascadeTransport, r)
                     else case hop of
                       None \<Rightarrow> (Inr (InAudio \<lparr> in_sender = sender, in_hops = 1, in_packet = inner \<rparr>), r)
                     | Some n \<Rightarrow>
                         (if 1 \<le> n \<and> n \<le> MAX_RELAY_HOPS
                          then (Inr (InAudio \<lparr> in_sender = sender, in_hops = n, in_packet = inner \<rparr>), r)
                          else (Inl CascadeTransport, r))))))"

definition authenticate_inbound ::
  "media_crypto \<Rightarrow> bytes \<Rightarrow> socket_addr \<Rightarrow> cascade_relay \<Rightarrow> (cascade_error + inbound_relay) \<times> cascade_relay" where
  "authenticate_inbound M data src r =
     (case authenticate_envelope M data src r of
        (Inr (InAudio msg), r) \<Rightarrow> (Inr msg, r)
      | (Inr (InControl _), r) \<Rightarrow> (Inl CascadeTransport, r)
      | (Inl e, r) \<Rightarrow> (Inl e, r))"

definition authenticate_hello ::
  "media_crypto \<Rightarrow> bytes \<Rightarrow> socket_addr \<Rightarrow> cascade_relay \<Rightarrow> (cascade_error + socket_addr) \<times> cascade_relay" where
  "authenticate_hello M data remote r =
     (case open_envelope M data r of
        Inl e \<Rightarrow> (Inl e, r)
      | Inr (counter, _, _, inner) \<Rightarrow>
          (case control_from_packet inner of
             Inr (Some (Hello addr)) \<Rightarrow>
               (let addr = canonical addr
                in if sa_ip (canonical remote) \<noteq> sa_ip addr then (Inl AuthorizationDenied, r)
                   else case replay_check addr counter r of
                     (Inl e, r) \<Rightarrow> (Inl e, r)
                   | (Inr _, r) \<Rightarrow> (Inr addr, r))
           | _ \<Rightarrow> (Inl CascadeTransport, r)))"

definition handle_udp_control ::
  "media_crypto \<Rightarrow> instant \<Rightarrow> cascade_control \<Rightarrow> socket_addr \<Rightarrow> cascade_relay \<Rightarrow> cascade_relay \<times> send list" where
  "handle_udp_control M now control src r =
     (case control of
        Ping n \<Rightarrow> (let (r, pong) = seal_control M (Pong n) r in (r, [SendUdp src pong]))
      | Pong n \<Rightarrow>
          (case (rtt_from_nonce now n r, map_of (re_links r) src) of
             (Some rtt, Some state) \<Rightarrow> (r\<lparr>re_links := AList.update src (record_udp rtt now state) (re_links r)\<rparr>, [])
           | _ \<Rightarrow> (r, []))
      | Hello _ \<Rightarrow> (r, []))"

text \<open>A refused datagram is noted once a minute per unknown source.\<close>

definition note_dropped_source :: "instant \<Rightarrow> socket_addr \<Rightarrow> cascade_relay \<Rightarrow> cascade_relay" where
  "note_dropped_source now src r =
     (if is_allowed r src then r
      else if (case map_of (re_dropped r) src of Some t \<Rightarrow> duration_since now t < 60 * 1000000000 | None \<Rightarrow> False)
      then r
      else r\<lparr>re_dropped := AList.update src now (if length (re_dropped r) \<ge> 256 then [] else re_dropped r)\<rparr>)"

text \<open>
  One received UDP datagram: the sends, and the packet handed to the media node (\<^verbatim>\<open>on_packet\<close>).
\<close>

definition receive_udp ::
  "media_crypto \<Rightarrow> (socket_addr \<Rightarrow> bool) \<Rightarrow> instant \<Rightarrow> bytes \<Rightarrow> socket_addr \<Rightarrow> cascade_relay
   \<Rightarrow> cascade_relay \<times> send list \<times> (uuid \<times> aurix_packet) option" where
  "receive_udp M queue_ok now data src r =
     (if length data < HEADER_SIZE then (r, [], None)
      else case authenticate_envelope M data src r of
        (Inr (InAudio msg), r) \<Rightarrow>
          (let (r, out) = forward_inbound M queue_ok now src msg r
           in (r, out, Some (in_sender msg, in_packet msg)))
      | (Inr (InControl control), r) \<Rightarrow>
          (let (r, out) = handle_udp_control M now control src r in (r, out, None))
      | (Inl _, r) \<Rightarrow> (note_dropped_source now src r, [], None))"

section \<open>Probing\<close>

text \<open>
  The work of the prober for one peer. \<open>reachable\<close> and \<open>sent_ok\<close> are the answers of the UDP socket; the
  result says whether a TCP connection attempt is started (its queue is registered at once).
\<close>

definition probe_udp ::
  "media_crypto \<Rightarrow> bool \<Rightarrow> bool \<Rightarrow> instant \<Rightarrow> socket_addr \<Rightarrow> link_state \<Rightarrow> cascade_relay
   \<Rightarrow> cascade_relay \<times> send list \<times> link_state" where
  "probe_udp M reachable sent_ok now peer state r =
     (if reachable then
        (let (r, ping) = seal_control M (Ping (nonce_now now r)) r
         in if sent_ok
            then (r, [SendUdp peer ping], state\<lparr>ls_udp_unanswered :=
                   (if ls_udp_unanswered state = - 1 then - 1 else ls_udp_unanswered state + 1)\<rparr>)
            else (r, [], state))
      else (r, [], state))"

definition udp_alive :: "instant \<Rightarrow> int \<Rightarrow> link_state \<Rightarrow> bool" where
  "udp_alive now max_age state \<longleftrightarrow>
     link_transport_of now max_age state = LinkUdp \<and> link_confirmed now max_age state \<noteq> None"

definition since_none_or :: "instant \<Rightarrow> instant option \<Rightarrow> int \<Rightarrow> bool" where
  "since_none_or now t d \<longleftrightarrow> (case t of None \<Rightarrow> True | Some t \<Rightarrow> duration_since now t \<ge> d)"

text \<open>The ping on the TCP link, opening the link first when it may be retried.\<close>

definition probe_tcp ::
  "media_crypto \<Rightarrow> (socket_addr \<Rightarrow> bool) \<Rightarrow> instant \<Rightarrow> socket_addr \<Rightarrow> link_state \<Rightarrow> cascade_relay
   \<Rightarrow> cascade_relay \<times> send list \<times> bool \<times> link_state" where
  "probe_tcp M queue_ok now peer state r =
     (let connect = (peer \<notin> set (re_tcp_links r) \<and> since_none_or now (ls_tcp_attempt state) (tcp_backoff r));
          state = (if connect then state\<lparr>ls_tcp_attempt := Some now\<rparr> else state);
          r = (if connect then r\<lparr>re_tcp_links := peer # re_tcp_links r\<rparr> else r)
      in if peer \<in> set (re_tcp_links r) then
           (let (r, ping) = seal_control M (Ping (nonce_now now r)) r
            in (r, if queue_ok peer then [SendTcp peer (cascade_frame ping)] else [], connect, state))
         else (r, [], connect, state))"

definition probe_peer ::
  "media_crypto \<Rightarrow> (socket_addr \<Rightarrow> bool) \<Rightarrow> bool \<Rightarrow> bool \<Rightarrow> instant \<Rightarrow> socket_addr \<Rightarrow> cascade_relay
   \<Rightarrow> cascade_relay \<times> send list \<times> bool" where
  "probe_peer M queue_ok reachable sent_ok now peer r =
     (let max_age = link_max_age r;
          state = (case map_of (re_links r) peer of Some s \<Rightarrow> s | None \<Rightarrow> link_default);
          (r, udp_out, state) = probe_udp M reachable sent_ok now peer state r;
          (r, tcp_out, connect, state) =
            (if \<not> re_tcp_enabled r then (r, [], False, state)
             else if \<not> reachable \<or> \<not> udp_alive now max_age state \<and> ls_udp_unanswered state \<ge> UDP_PROBES_BEFORE_TCP
             then probe_tcp M queue_ok now peer state r
             else if udp_alive now max_age state \<and> since_none_or now (ls_tcp_used state) TCP_IDLE_CLOSE
                 \<and> since_none_or now (ls_tcp_attempt state) TCP_IDLE_CLOSE
             then (r\<lparr>re_tcp_links := filter (\<lambda>b. b \<noteq> peer) (re_tcp_links r)\<rparr>, [], False, state)
             else (r, [], False, state))
      in (r\<lparr>re_links := AList.update peer state (re_links r)\<rparr>, udp_out @ tcp_out, connect))"

section \<open>What handlers leave alone\<close>

lemma send_tcp_state:
  "re_allowed (fst (send_tcp q peer data now r)) = re_allowed r"
  "re_keys (fst (send_tcp q peer data now r)) = re_keys r"
  "re_inbound_tcp (fst (send_tcp q peer data now r)) = re_inbound_tcp r"
  by (simp_all add: send_tcp_def)

lemma send_all_state [simp]:
  "re_allowed (fst (send_all q now data peers r)) = re_allowed r
   \<and> re_keys (fst (send_all q now data peers r)) = re_keys r
   \<and> re_inbound_tcp (fst (send_all q now data peers r)) = re_inbound_tcp r"
proof (induction peers arbitrary: r)
  case (Cons peer peers)
  show ?case
  proof (cases "transport_for peer now (link_max_age r) r")
    case LinkUdp
    with Cons show ?thesis by (simp add: case_prod_beta Let_def)
  next
    case LinkTcp
    with Cons [of "fst (send_tcp q peer data now r)"] send_tcp_state [of q peer data now r] show ?thesis
      by (simp add: case_prod_beta Let_def)
  qed
qed simp

lemma forward_inbound_state [simp]:
  "re_allowed (fst (forward_inbound M q now src msg r)) = re_allowed r"
  "re_keys (fst (forward_inbound M q now src msg r)) = re_keys r"
  "re_inbound_tcp (fst (forward_inbound M q now src msg r)) = re_inbound_tcp r"
  by (simp_all add: forward_inbound_def Let_def split: option.split)

lemma seal_control_state [simp]:
  "re_allowed (fst (seal_control M c r)) = re_allowed r"
  "re_keys (fst (seal_control M c r)) = re_keys r"
  "re_inbound_tcp (fst (seal_control M c r)) = re_inbound_tcp r"
  by (simp_all add: seal_control_def Let_def)

lemma handle_udp_control_state [simp]:
  "re_allowed (fst (handle_udp_control M now control src r)) = re_allowed r"
  "re_keys (fst (handle_udp_control M now control src r)) = re_keys r"
  "re_inbound_tcp (fst (handle_udp_control M now control src r)) = re_inbound_tcp r"
  by (simp_all add: handle_udp_control_def case_prod_beta Let_def split: cascade_control.split option.split)

lemma probe_parts_state:
  "re_allowed (fst (probe_udp M reachable sent_ok now peer state r)) = re_allowed r
   \<and> re_keys (fst (probe_udp M reachable sent_ok now peer state r)) = re_keys r
   \<and> re_inbound_tcp (fst (probe_udp M reachable sent_ok now peer state r)) = re_inbound_tcp r"
  "re_allowed (fst (probe_tcp M q now peer state r)) = re_allowed r
   \<and> re_keys (fst (probe_tcp M q now peer state r)) = re_keys r
   \<and> re_inbound_tcp (fst (probe_tcp M q now peer state r)) = re_inbound_tcp r"
  by (simp_all add: probe_udp_def probe_tcp_def Let_def case_prod_beta)

lemma probe_peer_state [simp]:
  "re_allowed (fst (probe_peer M q reachable sent_ok now peer r)) = re_allowed r
   \<and> re_keys (fst (probe_peer M q reachable sent_ok now peer r)) = re_keys r
   \<and> re_inbound_tcp (fst (probe_peer M q reachable sent_ok now peer r)) = re_inbound_tcp r"
  unfolding probe_peer_def Let_def case_prod_beta
  using probe_parts_state
  by (auto split: if_split)

lemma forward_to_peers_state [simp]:
  "re_allowed (fst (forward_to_peers M q now c sender p l r)) = re_allowed r"
  "re_keys (fst (forward_to_peers M q now c sender p l r)) = re_keys r"
  "re_inbound_tcp (fst (forward_to_peers M q now c sender p l r)) = re_inbound_tcp r"
  by (simp_all add: forward_to_peers_def Let_def split: option.split)

lemma set_channel_route_state [simp]:
  "re_allowed (set_channel_route crc c route r) = re_allowed r"
  "re_keys (set_channel_route crc c route r) = re_keys r"
  "re_inbound_tcp (set_channel_route crc c route r) = re_inbound_tcp r"
  by (simp_all add: set_channel_route_def Let_def)

lemma retain_channels_state [simp]:
  "re_allowed (retain_channels crc keep r) = re_allowed r"
  "re_keys (retain_channels crc keep r) = re_keys r"
  "re_inbound_tcp (retain_channels crc keep r) = re_inbound_tcp r"
proof -
  have "re_allowed (fold (remove_channel crc) cs r) = re_allowed r
      \<and> re_keys (fold (remove_channel crc) cs r) = re_keys r
      \<and> re_inbound_tcp (fold (remove_channel crc) cs r) = re_inbound_tcp r" for cs
    by (induction cs arbitrary: r) (simp_all add: remove_channel_def)
  then show "re_allowed (retain_channels crc keep r) = re_allowed r"
    "re_keys (retain_channels crc keep r) = re_keys r"
    "re_inbound_tcp (retain_channels crc keep r) = re_inbound_tcp r"
    by (simp_all add: retain_channels_def)
qed

lemma note_dropped_source_state [simp]:
  "re_allowed (note_dropped_source now src r) = re_allowed r" "re_keys (note_dropped_source now src r) = re_keys r"
  "re_inbound_tcp (note_dropped_source now src r) = re_inbound_tcp r"
  by (simp_all add: note_dropped_source_def)

lemma replay_check_keys [simp]:
  "re_keys (snd (replay_check src c r)) = re_keys r"
  "re_inbound_tcp (snd (replay_check src c r)) = re_inbound_tcp r"
  by (simp_all add: replay_check_def Let_def case_prod_beta split: option.split)

text \<open>An accepted envelope: opened, and passed by the replay window of its source.\<close>

lemma authenticate_envelope_cases:
  obtains (rejected) e where "fst (authenticate_envelope M data src r) = Inl e"
      "snd (authenticate_envelope M data src r) = r \<or>
       (\<exists>c s h i. open_envelope M data r = Inr (c, s, h, i) \<and> snd (authenticate_envelope M data src r) = snd (replay_check src c r))"
  | (accepted) res c s h i where "fst (authenticate_envelope M data src r) = Inr res"
      "open_envelope M data r = Inr (c, s, h, i)" "fst (replay_check src c r) = Inr ()"
      "snd (authenticate_envelope M data src r) = snd (replay_check src c r)"
proof (cases "is_allowed r src")
  case False
  then show ?thesis by (intro rejected) (simp_all add: authenticate_envelope_def)
next
  case allowed: True
  show ?thesis
  proof (cases "open_envelope M data r")
    case (Inl e)
    with allowed show ?thesis by (intro rejected) (simp_all add: authenticate_envelope_def)
  next
    case (Inr x)
    obtain c s h i where op: "open_envelope M data r = Inr (c, s, h, i)" using Inr by (cases x) auto
    obtain v r' where v: "replay_check src c r = (v, r')" by fastforce
    have st: "snd (authenticate_envelope M data src r) = r'"
      using allowed op v
      by (simp add: authenticate_envelope_def split: sum.split option.split)
    show ?thesis
    proof (cases v)
      case (Inl e)
      with allowed op v show ?thesis
        by (intro rejected [of e]) (simp_all add: authenticate_envelope_def)
    next
      case (Inr u)
      show ?thesis
      proof (cases "fst (authenticate_envelope M data src r)")
        case (Inl e)
        with op v st show ?thesis by (intro rejected [of e]) auto
      next
        case (Inr res)
        with op v st \<open>v = Inr u\<close> show ?thesis by (intro accepted [of res c s h i]) auto
      qed
    qed
  qed
qed

end
