(* ===== verification/Cascade_Node.thy ===== *)
theory Cascade_Node
  imports Cascade_Relay
begin

text \<open>
  A running cascade relay, \<^verbatim>\<open>aurix-media/src/cascade.rs\<close>: the TCP connections of the fallback and the
  steps of the receiver, the prober, the TCP tasks and the callers. A connection is first waiting for
  its \<^verbatim>\<open>Hello\<close> and then serves the peer it named. Timeouts, ends of stream and failed writes are the
  closing steps; a step happens as a whole.

  The lemmas show that relayed audio is authentic and accepted at most once over both transports, that
  connections are counted and bounded, that the hub rules cannot loop, and that what one node forwards
  the next one accepts with the hop count one higher.
\<close>

section \<open>TCP connections\<close>

datatype tcp_conn = AwaitHello socket_addr | Serving socket_addr

text \<open>A frame on an inbound connection that serves \<open>peer\<close>: the sends, the pong and the packet handed on.\<close>

definition serve_tcp_frame ::
  "media_crypto \<Rightarrow> (socket_addr \<Rightarrow> bool) \<Rightarrow> instant \<Rightarrow> bytes \<Rightarrow> socket_addr \<Rightarrow> cascade_relay
   \<Rightarrow> cascade_relay \<times> send list \<times> bytes option \<times> (uuid \<times> aurix_packet) option" where
  "serve_tcp_frame M queue_ok now data peer r =
     (case authenticate_envelope M data peer r of
        (Inr (InAudio msg), r) \<Rightarrow>
          (let (r, out) = forward_inbound M queue_ok now peer msg r
           in (r, out, None, Some (in_sender msg, in_packet msg)))
      | (Inr (InControl (Ping n)), r) \<Rightarrow>
          (let (r, pong) = seal_control M (Pong n) r in (r, [], Some (cascade_frame pong), None))
      | (Inr (InControl _), r) \<Rightarrow> (r, [], None, None)
      | (Inl _, r) \<Rightarrow> (r, [], None, None))"

text \<open>A frame the peer sends back on an outbound link.\<close>

definition link_frame ::
  "media_crypto \<Rightarrow> instant \<Rightarrow> bytes \<Rightarrow> socket_addr \<Rightarrow> cascade_relay \<Rightarrow> cascade_relay" where
  "link_frame M now data peer r =
     (case authenticate_envelope M data peer r of
        (Inr (InControl (Pong n)), r) \<Rightarrow>
          (case (rtt_from_nonce now n r, map_of (re_links r) peer) of
             (Some rtt, Some state) \<Rightarrow> r\<lparr>re_links := AList.update peer (record_tcp rtt now state) (re_links r)\<rparr>
           | _ \<Rightarrow> r)
      | (_, r) \<Rightarrow> r)"

text \<open>The first frame of an outbound link.\<close>

definition link_hello :: "media_crypto \<Rightarrow> socket_addr \<Rightarrow> cascade_relay \<Rightarrow> cascade_relay \<times> bytes" where
  "link_hello M peer r =
     (let (r, hello) = seal_control M (Hello (hello_addr_for peer r)) r in (r, cascade_frame hello))"

section \<open>Steps\<close>

record cascade_node =
  cn_relay :: cascade_relay
  cn_conns :: "(nat \<times> tcp_conn) list"

datatype cascade_input =
    UdpDatagram bytes socket_addr
  | TcpAccept nat socket_addr
  | TcpFrame nat bytes
  | TcpClosed nat
  | LinkUp socket_addr
  | LinkFrame socket_addr bytes
  | LinkClosed socket_addr bool
  | ProbePeer socket_addr bool bool
  | LocalAudio channel_id uuid aurix_packet "u8 option"
  | SetRoute channel_id channel_route
  | RetainChannels "channel_id list"

datatype cascade_output = Sent send | OnConn nat bytes | OnLink socket_addr bytes | Handed uuid aurix_packet

fun is_handed :: "cascade_output \<Rightarrow> bool" where
  "is_handed (Handed _ _) = True"
| "is_handed _ = False"

definition handed_list :: "(uuid \<times> aurix_packet) option \<Rightarrow> cascade_output list" where
  "handed_list p = (case p of Some (u, pkt) \<Rightarrow> [Handed u pkt] | None \<Rightarrow> [])"

text \<open>\<^verbatim>\<open>run_tcp_accept\<close>: at most \<^verbatim>\<open>MAX_INBOUND_TCP\<close> connections are served at a time.\<close>

definition tcp_accept :: "nat \<Rightarrow> socket_addr \<Rightarrow> cascade_node \<Rightarrow> cascade_node" where
  "tcp_accept c remote n =
     (let r = cn_relay n
      in if re_inbound_tcp r \<ge> MAX_INBOUND_TCP \<or> map_of (cn_conns n) c \<noteq> None then n
         else n\<lparr>cn_relay := r\<lparr>re_inbound_tcp := re_inbound_tcp r + 1\<rparr>,
                cn_conns := (c, AwaitHello remote) # cn_conns n\<rparr>)"

definition tcp_close :: "nat \<Rightarrow> cascade_node \<Rightarrow> cascade_node" where
  "tcp_close c n =
     (let r = cn_relay n
      in if map_of (cn_conns n) c = None then n
         else n\<lparr>cn_relay := r\<lparr>re_inbound_tcp := re_inbound_tcp r - 1\<rparr>,
                cn_conns := AList.delete c (cn_conns n)\<rparr>)"

definition tcp_frame ::
  "media_crypto \<Rightarrow> (socket_addr \<Rightarrow> bool) \<Rightarrow> instant \<Rightarrow> nat \<Rightarrow> bytes \<Rightarrow> cascade_node
   \<Rightarrow> cascade_node \<times> cascade_output list" where
  "tcp_frame M queue_ok now c data n =
     (case map_of (cn_conns n) c of
        None \<Rightarrow> (n, [])
      | Some (AwaitHello remote) \<Rightarrow>
          (case authenticate_hello M data remote (cn_relay n) of
             (Inr peer, r) \<Rightarrow> (n\<lparr>cn_relay := r, cn_conns := AList.update c (Serving peer) (cn_conns n)\<rparr>, [])
           | (Inl _, r) \<Rightarrow> (tcp_close c (n\<lparr>cn_relay := r\<rparr>), []))
      | Some (Serving peer) \<Rightarrow>
          (let (r, out, pong, packet) = serve_tcp_frame M queue_ok now data peer (cn_relay n)
           in (n\<lparr>cn_relay := r\<rparr>,
               map Sent out @ (case pong of Some b \<Rightarrow> [OnConn c b] | None \<Rightarrow> []) @ handed_list packet)))"

fun cascade_step ::
  "media_crypto \<Rightarrow> (socket_addr \<Rightarrow> bool) \<Rightarrow> instant \<Rightarrow> cascade_input \<Rightarrow> cascade_node
   \<Rightarrow> cascade_node \<times> cascade_output list" where
  "cascade_step M q now (UdpDatagram data src) n =
     (let (r, out, packet) = receive_udp M q now data src (cn_relay n)
      in (n\<lparr>cn_relay := r\<rparr>, map Sent out @ handed_list packet))"
| "cascade_step M q now (TcpAccept c remote) n = (tcp_accept c remote n, [])"
| "cascade_step M q now (TcpFrame c data) n = tcp_frame M q now c data n"
| "cascade_step M q now (TcpClosed c) n = (tcp_close c n, [])"
| "cascade_step M q now (LinkUp peer) n =
     (let (r, hello) = link_hello M peer (cn_relay n) in (n\<lparr>cn_relay := r\<rparr>, [OnLink peer hello]))"
| "cascade_step M q now (LinkFrame peer data) n = (n\<lparr>cn_relay := link_frame M now data peer (cn_relay n)\<rparr>, [])"
| "cascade_step M q now (LinkClosed peer same_channel) n =
     (n\<lparr>cn_relay := (let r = cn_relay n in if same_channel
        then r\<lparr>re_tcp_links := filter (\<lambda>b. b \<noteq> peer) (re_tcp_links r)\<rparr> else r)\<rparr>, [])"
| "cascade_step M q now (ProbePeer peer reachable sent_ok) n =
     (let (r, out, _) = probe_peer M q reachable sent_ok now peer (cn_relay n)
      in (n\<lparr>cn_relay := r\<rparr>, map Sent out))"
| "cascade_step M q now (LocalAudio channel sender packet level) n =
     (let (r, out) = forward_to_peers M q now channel sender packet level (cn_relay n)
      in (n\<lparr>cn_relay := r\<rparr>, map Sent out))"
| "cascade_step M q now (SetRoute channel route) n =
     (n\<lparr>cn_relay := set_channel_route (mc_crc M) channel route (cn_relay n)\<rparr>, [])"
| "cascade_step M q now (RetainChannels keep) n =
     (n\<lparr>cn_relay := retain_channels (mc_crc M) keep (cn_relay n)\<rparr>, [])"

text \<open>The envelope a step reads, with the peer it is attributed to.\<close>

fun envelope_of :: "cascade_input \<Rightarrow> cascade_node \<Rightarrow> (socket_addr \<times> bytes) option" where
  "envelope_of (UdpDatagram data src) n = Some (src, data)"
| "envelope_of (TcpFrame c data) n =
     (case map_of (cn_conns n) c of Some (Serving peer) \<Rightarrow> Some (peer, data) | _ \<Rightarrow> None)"
| "envelope_of _ n = None"

text \<open>The envelopes, by peer and counter, whose audio a run hands to the media node.\<close>

fun handed_envelopes ::
  "media_crypto \<Rightarrow> (socket_addr \<Rightarrow> bool) \<Rightarrow> (instant \<times> cascade_input) list \<Rightarrow> cascade_node \<Rightarrow> (socket_addr \<times> u64) list" where
  "handed_envelopes M q [] n = []"
| "handed_envelopes M q ((now, i) # is) n =
     (let (n', out) = cascade_step M q now i n
      in (case envelope_of i n of
            Some (src, data) \<Rightarrow>
              (case open_envelope M data (cn_relay n) of
                 Inr (c, _) \<Rightarrow> if list_ex is_handed out then [(src, c)] else []
               | Inl _ \<Rightarrow> [])
          | None \<Rightarrow> [])
         @ handed_envelopes M q is n')"

section \<open>Replay windows\<close>

definition windows_represent :: "cascade_relay \<Rightarrow> (socket_addr \<Rightarrow> u64 set) \<Rightarrow> bool" where
  "windows_represent r A \<longleftrightarrow> (\<forall>a w. map_of (re_allowed r) a = Some w \<longrightarrow> represents_wide w (A a))"

lemma windows_represent_cong: "re_allowed r' = re_allowed r \<Longrightarrow> windows_represent r' A = windows_represent r A"
  by (simp add: windows_represent_def)

text \<open>A replay check extends what the windows represent, by the counter when it passes.\<close>

lemma replay_check_represents:
  assumes rep: "windows_represent r A"
  shows "\<exists>A'. windows_represent (snd (replay_check src c r)) A' \<and> (\<forall>a. A a \<subseteq> A' a)
    \<and> (fst (replay_check src c r) = Inr () \<longrightarrow> c \<notin> A src \<and> c \<in> A' src)"
proof (cases "map_of (re_allowed r) src")
  case None
  with rep show ?thesis by (intro exI [of _ A]) (simp add: replay_check_def)
next
  case (Some w)
  obtain ok w' where w': "wide_check_and_update_u64 c w = (ok, w')" by fastforce
  have others: "represents_wide v (A a)" if "map_of (re_allowed r) a = Some v" for a v
    using rep that unfolding windows_represent_def by blast
  note w = others [OF Some]
  from rwide.check_fresh [OF w, of c] rwide.check_represents [OF w, of c] w'
  have ok: "ok = fresh 4096 (A src) c" and r': "represents_wide w' (if ok then insert c (A src) else A src)" by auto
  have step: "replay_check src c r = ((if ok then Inr () else Inl AuthenticationFailed),
      r\<lparr>re_allowed := AList.update src w' (re_allowed r)\<rparr>)"
    using Some w' by (simp add: replay_check_def)
  show ?thesis
  proof (cases ok)
    case True
    with ok not_fresh_member have "c \<notin> A src" by blast
    with True r' others show ?thesis
      by (intro exI [of _ "A(src := insert c (A src))"]) (auto simp: step windows_represent_def update_conv')
  next
    case False
    with r' others show ?thesis
      by (intro exI [of _ A]) (simp add: step windows_represent_def update_conv')
  qed
qed

lemma authenticate_envelope_represents:
  assumes rep: "windows_represent r A"
  shows "\<exists>A'. windows_represent (snd (authenticate_envelope M data src r)) A' \<and> (\<forall>a. A a \<subseteq> A' a)
    \<and> ((\<exists>x. fst (authenticate_envelope M data src r) = Inr x) \<longrightarrow>
         (\<exists>c e. open_envelope M data r = Inr (c, e) \<and> c \<notin> A src \<and> c \<in> A' src))"
proof (cases rule: authenticate_envelope_cases [of M data src r])
  case (rejected e)
  from rejected(2) show ?thesis
  proof
    assume "snd (authenticate_envelope M data src r) = r"
    with rep rejected(1) show ?thesis by (intro exI [of _ A]) simp
  next
    assume "\<exists>c s h i. open_envelope M data r = Inr (c, s, h, i)
      \<and> snd (authenticate_envelope M data src r) = snd (replay_check src c r)"
    then obtain c where c: "snd (authenticate_envelope M data src r) = snd (replay_check src c r)" by blast
    from replay_check_represents [OF rep, of src c] rejected(1) show ?thesis unfolding c by fastforce
  qed
next
  case (accepted res c s h i)
  from replay_check_represents [OF rep, of src c] accepted(3)
  obtain A' where "windows_represent (snd (replay_check src c r)) A'" "\<forall>a. A a \<subseteq> A' a" "c \<notin> A src" "c \<in> A' src"
    by blast
  with accepted(2,4) show ?thesis by (intro exI [of _ A']) simp
qed

lemma authenticate_hello_cases:
  obtains (same) "snd (authenticate_hello M data remote r) = r"
  | (checked) peer c where "snd (authenticate_hello M data remote r) = snd (replay_check peer c r)"
proof (cases "open_envelope M data r")
  case (Inl e)
  then show ?thesis by (intro same) (simp add: authenticate_hello_def)
next
  case (Inr x)
  obtain c s h i where x: "x = (c, s, h, i)" by (cases x)
  show ?thesis
  proof (cases "\<exists>addr. control_from_packet i = Inr (Some (Hello addr))
      \<and> sa_ip (canonical remote) = sa_ip (canonical addr)")
    case True
    then obtain addr where "control_from_packet i = Inr (Some (Hello addr))"
      "sa_ip (canonical remote) = sa_ip (canonical addr)" by blast
    with Inr x show ?thesis
      by (intro checked [of "canonical addr" c])
        (simp add: authenticate_hello_def Let_def split: prod.split sum.split)
  next
    case False
    with Inr x show ?thesis
      by (intro same) (auto simp: authenticate_hello_def Let_def split: sum.split option.split cascade_control.split)
  qed
qed

lemma authenticate_hello_represents:
  assumes rep: "windows_represent r A"
  shows "\<exists>A'. windows_represent (snd (authenticate_hello M data remote r)) A' \<and> (\<forall>a. A a \<subseteq> A' a)"
proof (cases rule: authenticate_hello_cases [of M data remote r])
  case same
  with rep show ?thesis by (intro exI [of _ A]) simp
next
  case (checked peer c)
  from replay_check_represents [OF rep, of peer c] checked show ?thesis by auto
qed

text \<open>The receivers change the windows by authenticating, and hand on what authenticated as audio.\<close>

lemma receive_udp_auth:
  "length data < HEADER_SIZE \<Longrightarrow> receive_udp M q now data src r = (r, [], None)"
  "\<not> length data < HEADER_SIZE \<Longrightarrow>
     re_allowed (fst (receive_udp M q now data src r)) = re_allowed (snd (authenticate_envelope M data src r))"
  "snd (snd (receive_udp M q now data src r)) = Some (u, p) \<Longrightarrow>
     \<exists>msg. fst (authenticate_envelope M data src r) = Inr (InAudio msg) \<and> u = in_sender msg \<and> p = in_packet msg"
proof -
  obtain a r' where a: "authenticate_envelope M data src r = (a, r')" by fastforce
  show "length data < HEADER_SIZE \<Longrightarrow> receive_udp M q now data src r = (r, [], None)"
    by (simp add: receive_udp_def)
  show "\<not> length data < HEADER_SIZE \<Longrightarrow>
     re_allowed (fst (receive_udp M q now data src r)) = re_allowed (snd (authenticate_envelope M data src r))"
    by (simp add: receive_udp_def a case_prod_beta Let_def split: sum.split inbound.split)
  show "snd (snd (receive_udp M q now data src r)) = Some (u, p) \<Longrightarrow>
     \<exists>msg. fst (authenticate_envelope M data src r) = Inr (InAudio msg) \<and> u = in_sender msg \<and> p = in_packet msg"
    by (auto simp: receive_udp_def a case_prod_beta Let_def split: sum.splits inbound.splits if_splits)
qed

lemma serve_tcp_frame_auth:
  "re_allowed (fst (serve_tcp_frame M q now data peer r)) = re_allowed (snd (authenticate_envelope M data peer r))"
  "snd (snd (snd (serve_tcp_frame M q now data peer r))) = Some (u, p) \<Longrightarrow>
     \<exists>msg. fst (authenticate_envelope M data peer r) = Inr (InAudio msg) \<and> u = in_sender msg \<and> p = in_packet msg"
proof -
  obtain a r' where a: "authenticate_envelope M data peer r = (a, r')" by fastforce
  show "re_allowed (fst (serve_tcp_frame M q now data peer r)) = re_allowed (snd (authenticate_envelope M data peer r))"
    by (simp add: serve_tcp_frame_def a case_prod_beta Let_def split: sum.split inbound.split cascade_control.split)
  show "snd (snd (snd (serve_tcp_frame M q now data peer r))) = Some (u, p) \<Longrightarrow>
     \<exists>msg. fst (authenticate_envelope M data peer r) = Inr (InAudio msg) \<and> u = in_sender msg \<and> p = in_packet msg"
    by (auto simp: serve_tcp_frame_def a case_prod_beta Let_def
        split: sum.splits inbound.splits cascade_control.splits)
qed

lemma link_frame_auth:
  "re_allowed (link_frame M now data peer r) = re_allowed (snd (authenticate_envelope M data peer r))"
proof -
  obtain a r' where a: "authenticate_envelope M data peer r = (a, r')" by fastforce
  show ?thesis
    by (simp add: link_frame_def a split: sum.split inbound.split cascade_control.split option.split)
qed

lemma handed_list_simps [simp]:
  "list_ex is_handed (map Sent out) = False"
  "Handed u p \<in> set (handed_list x) \<longleftrightarrow> x = Some (u, p)"
  "list_ex is_handed (handed_list x) \<longleftrightarrow> x \<noteq> None"
  by (induction out) (auto simp: handed_list_def split: option.split prod.split)

text \<open>A handed packet was read from an allowed peer and authenticated as audio.\<close>

lemma cascade_step_handed:
  assumes "Handed u p \<in> set (snd (cascade_step M q now i n))"
  obtains src data msg where "envelope_of i n = Some (src, data)"
    "fst (authenticate_envelope M data src (cn_relay n)) = Inr (InAudio msg)" "u = in_sender msg" "p = in_packet msg"
    "re_allowed (cn_relay (fst (cascade_step M q now i n))) = re_allowed (snd (authenticate_envelope M data src (cn_relay n)))"
proof (cases i)
  case (UdpDatagram data src)
  with assms have packet: "snd (snd (receive_udp M q now data src (cn_relay n))) = Some (u, p)"
    by (auto simp: case_prod_beta Let_def)
  then have "\<not> length data < HEADER_SIZE" using receive_udp_auth(1) [of data M q now src "cn_relay n"] by auto
  with UdpDatagram receive_udp_auth(2,3) packet that show ?thesis
    by (fastforce simp: case_prod_beta Let_def)
next
  case (TcpFrame c data)
  with assms obtain peer where peer: "map_of (cn_conns n) c = Some (Serving peer)"
    and "snd (snd (snd (serve_tcp_frame M q now data peer (cn_relay n)))) = Some (u, p)"
    by (auto simp: tcp_frame_def case_prod_beta Let_def split: option.splits tcp_conn.splits sum.splits)
  with TcpFrame serve_tcp_frame_auth [of M q now data peer "cn_relay n"] that show ?thesis
    by (fastforce simp: tcp_frame_def case_prod_beta Let_def)
qed (use assms in \<open>auto simp: case_prod_beta Let_def\<close>)

lemma tcp_close_allowed [simp]: "re_allowed (cn_relay (tcp_close c n)) = re_allowed (cn_relay n)"
  by (simp add: tcp_close_def Let_def)

lemma tcp_accept_allowed [simp]: "re_allowed (cn_relay (tcp_accept c remote n)) = re_allowed (cn_relay n)"
  by (simp add: tcp_accept_def Let_def)

text \<open>How a step changes the allowed peers with their windows: not at all, or by one authentication.\<close>

lemma cascade_step_allowed:
  obtains (same) "re_allowed (cn_relay (fst (cascade_step M q now i n))) = re_allowed (cn_relay n)"
  | (envelope) data src where "re_allowed (cn_relay (fst (cascade_step M q now i n))) =
      re_allowed (snd (authenticate_envelope M data src (cn_relay n)))"
  | (hello) data remote where "re_allowed (cn_relay (fst (cascade_step M q now i n))) =
      re_allowed (snd (authenticate_hello M data remote (cn_relay n)))"
proof (cases i)
  case (UdpDatagram data src)
  with receive_udp_auth(1,2) [of data M q now src "cn_relay n"] show ?thesis
    by (cases "length data < HEADER_SIZE") (auto intro: same envelope [of data src] simp: case_prod_beta Let_def)
next
  case (TcpFrame c data)
  show ?thesis
  proof (cases "map_of (cn_conns n) c")
    case None
    with TcpFrame show ?thesis by (intro same) (simp add: tcp_frame_def)
  next
    case (Some conn)
    show ?thesis
    proof (cases conn)
      case (AwaitHello remote)
      obtain a r' where a: "authenticate_hello M data remote (cn_relay n) = (a, r')" by fastforce
      from TcpFrame Some AwaitHello a show ?thesis
        by (intro hello [of data remote]) (simp add: tcp_frame_def split: sum.split)
    next
      case (Serving peer)
      with TcpFrame Some serve_tcp_frame_auth(1) [of M q now data peer "cn_relay n"] show ?thesis
        by (intro envelope [of data peer]) (simp add: tcp_frame_def case_prod_beta Let_def)
    qed
  qed
next
  case (LinkFrame peer data)
  then show ?thesis by (intro envelope [of data peer]) (simp add: link_frame_auth)
qed (auto intro!: same simp: case_prod_beta Let_def link_hello_def)

lemma cascade_step_represents:
  assumes rep: "windows_represent (cn_relay n) A"
  shows "\<exists>A'. windows_represent (cn_relay (fst (cascade_step M q now i n))) A' \<and> (\<forall>a. A a \<subseteq> A' a)
    \<and> (list_ex is_handed (snd (cascade_step M q now i n)) \<longrightarrow>
         (\<exists>src data c e. envelope_of i n = Some (src, data) \<and> open_envelope M data (cn_relay n) = Inr (c, e)
            \<and> c \<notin> A src \<and> c \<in> A' src))"
proof (cases "list_ex is_handed (snd (cascade_step M q now i n))")
  case True
  then obtain x where x: "x \<in> set (snd (cascade_step M q now i n))" "is_handed x" by (auto simp: list_ex_iff)
  from x(2) obtain u p where "x = Handed u p" by (cases x) auto
  with x(1) have "Handed u p \<in> set (snd (cascade_step M q now i n))" by simp
  then obtain src data msg where env: "envelope_of i n = Some (src, data)"
    and ok: "fst (authenticate_envelope M data src (cn_relay n)) = Inr (InAudio msg)"
    and same: "re_allowed (cn_relay (fst (cascade_step M q now i n)))
       = re_allowed (snd (authenticate_envelope M data src (cn_relay n)))"
    by (rule cascade_step_handed)
  from authenticate_envelope_represents [OF rep, of M data src] ok env show ?thesis
    unfolding windows_represent_cong [OF same] by fastforce
next
  case False
  have "\<exists>A'. windows_represent (cn_relay (fst (cascade_step M q now i n))) A' \<and> (\<forall>a. A a \<subseteq> A' a)"
  proof (cases rule: cascade_step_allowed [of M q now i n])
    case same
    with rep show ?thesis by (intro exI [of _ A]) (simp add: windows_represent_def)
  next
    case (envelope data src)
    from authenticate_envelope_represents [OF rep, of M data src] show ?thesis
      unfolding windows_represent_cong [OF envelope] by blast
  next
    case (hello data remote)
    from authenticate_hello_represents [OF rep, of M data remote] show ?thesis
      unfolding windows_represent_cong [OF hello] .
  qed
  with False show ?thesis by blast
qed

lemma handed_envelopes_fresh:
  assumes "windows_represent (cn_relay n) A"
  shows "distinct (handed_envelopes M q is n) \<and> (\<forall>x \<in> set (handed_envelopes M q is n). snd x \<notin> A (fst x))"
  using assms
proof (induction "is" arbitrary: n A)
  case (Cons i "is")
  obtain now inp where i: "i = (now, inp)" by (cases i)
  let ?n = "fst (cascade_step M q now inp n)"
  from cascade_step_represents [OF Cons.prems, of M q now inp]
  obtain A' where A': "windows_represent (cn_relay ?n) A'" "\<And>a. A a \<subseteq> A' a"
    and h: "list_ex is_handed (snd (cascade_step M q now inp n)) \<Longrightarrow>
         \<exists>src data c e. envelope_of inp n = Some (src, data) \<and> open_envelope M data (cn_relay n) = Inr (c, e)
            \<and> c \<notin> A src \<and> c \<in> A' src"
    by blast
  note tail = Cons.IH [OF A'(1)]
  show ?case
  proof (cases "list_ex is_handed (snd (cascade_step M q now inp n))")
    case True
    with h obtain src data c e where e: "envelope_of inp n = Some (src, data)"
      "open_envelope M data (cn_relay n) = Inr (c, e)" "c \<notin> A src" "c \<in> A' src" by blast
    then have "handed_envelopes M q (i # is) n = (src, c) # handed_envelopes M q is ?n"
      using True by (cases e) (simp add: i case_prod_beta Let_def)
    moreover have "(src, c) \<notin> set (handed_envelopes M q is ?n)" using tail e(4) by fastforce
    ultimately show ?thesis using tail e(3) A'(2) by fastforce
  next
    case False
    then have "handed_envelopes M q (i # is) n = handed_envelopes M q is ?n"
      by (simp add: i case_prod_beta Let_def split: option.split sum.split)
    with tail A'(2) show ?thesis by fastforce
  qed
qed simp

section \<open>From one node to the next\<close>

lemma counter_split:
  "push_bit 32 (ucast (ucast (drop_bit 32 c) :: u32)) OR ucast (ucast c :: u32) = (c :: u64)"
  by (rule bit_word_eqI) (auto simp: bit_simps)

lemma envelope_fields:
  "h_type (p_header (relay_envelope_inner crc inner s c sender hop)) = Relay"
  "has_flag RelayFlag (p_header (relay_envelope_inner crc inner s c sender hop))"
  "h_timestamp (p_header (relay_envelope_inner crc inner s c sender hop)) = ucast (drop_bit 32 c)"
  "h_sequence (p_header (relay_envelope_inner crc inner s c sender hop)) = ucast c"
  by (simp_all add: relay_envelope_inner_def new_packet_def new_header_def Let_def split: option.split)

text \<open>A sealed envelope opens, at a node with the same keys, to what was put in.\<close>

lemma open_envelope_sealed:
  assumes mac: "\<And>k m. length (mc_mac M k m) = 32" and v: "h_version (p_header inner) = PROTOCOL_VERSION"
    and small: "length (p_payload inner) + (case hop of None \<Rightarrow> 0 | Some _ \<Rightarrow> 1) \<le> 1354"
  shows "open_envelope M (seal (mc_mac M) (mc_ks M) (mc_crc M)
      (relay_envelope_inner (mc_crc M) inner s c sender hop) (re_keys r)) r =
    Inr (c, sender, map_option (\<lambda>n. n AND RELAY_HOP_MASK) hop, plain (mc_crc M) inner)"
proof -
  let ?env = "relay_envelope_inner (mc_crc M) inner s c sender hop"
  let ?q = "sealed (mc_mac M) (mc_ks M) (mc_crc M) ?env (re_keys r)"
  let ?q' = "snd (open_packet (mc_mac M) (mc_ks M) (mc_crc M) (re_keys r) ?q)"
  have "length (p_payload ?env) + 46 \<le> MAX_RELAY_PACKET_SIZE"
    using small by (simp add: length_envelope size_consts)
  then have "wire_ok (mc_crc M) MAX_RELAY_PACKET_SIZE ?q"
    by (intro sealed_ok [OF mac]) (simp_all add: size_consts)
  then have "decode_bounded (mc_crc M) (seal (mc_mac M) (mc_ks M) (mc_crc M) ?env (re_keys r)) MAX_RELAY_PACKET_SIZE = Inr ?q"
    unfolding seal_wire by (rule decode_bounded_wire)
  moreover have "h_type (p_header ?q) = Relay" by (simp add: sealed_def Let_def envelope_fields)
  moreover have "has_flag RelayFlag (p_header ?q)" by (simp add: envelope_fields)
  moreover have "fst (open_packet (mc_mac M) (mc_ks M) (mc_crc M) (re_keys r) ?q)" by (simp add: open_sealed)
  moreover have "h_timestamp (p_header ?q') = ucast (drop_bit 32 c)" "h_sequence (p_header ?q') = ucast c"
    by (simp_all add: open_sealed finalized_header_def envelope_fields)
  moreover have "relay_inner_hop (mc_crc M) ?q' =
      Inr (sender, map_option (\<lambda>n. n AND RELAY_HOP_MASK) hop, plain (mc_crc M) inner)"
    by (rule relay_inner_hop_envelope [OF v])
      (use small in \<open>auto simp: open_sealed finalized_header_def split: option.splits\<close>)
  ultimately show ?thesis by (simp add: open_envelope_def case_prod_beta counter_split)
qed

lemma send_all_sends:
  assumes "x \<in> set (snd (send_all q now data peers r))"
  shows "\<exists>peer \<in> set peers. x = SendUdp peer data \<or> x = SendTcp peer (cascade_frame data)"
  using assms
proof (induction peers arbitrary: r)
  case (Cons peer peers)
  then show ?case
    by (auto simp: case_prod_beta Let_def send_tcp_def split: link_transport.splits if_splits)
qed simp

lemma plain_fields [simp]:
  "h_type (p_header (plain crc p)) = h_type (p_header p)" "h_channel (p_header (plain crc p)) = h_channel (p_header p)"
  "h_version (p_header (plain crc p)) = h_version (p_header p)" "p_payload (plain crc p) = p_payload p"
  by (simp_all add: plain_def new_packet_def finalized_header_def clear_flag_def)

text \<open>An envelope that opens to audio with a legal hop count is accepted unless the window refuses it.\<close>

lemma authenticate_envelope_audio:
  assumes "map_of (re_allowed r) src = Some w" and "fst (wide_check_and_update_u64 c w)"
    and "open_envelope M data r = Inr (c, sender, hop, inner)"
    and "h_type (p_header inner) = Audio \<or> h_type (p_header inner) = AudioFec"
    and "\<And>n. hop = Some n \<Longrightarrow> 1 \<le> n \<and> n \<le> MAX_RELAY_HOPS"
  shows "fst (authenticate_envelope M data src r) =
    Inr (InAudio \<lparr> in_sender = sender, in_hops = (case hop of None \<Rightarrow> 1 | Some n \<Rightarrow> n), in_packet = inner \<rparr>)"
proof -
  have "is_allowed r src" using assms(1) by (simp add: is_allowed_def)
  moreover have "fst (replay_check src c r) = Inr ()"
    using assms(1,2) by (simp add: replay_check_def case_prod_beta Let_def)
  moreover have "control_from_packet inner = Inr None"
    using assms(4) by (auto simp: control_from_packet_def)
  ultimately show ?thesis
    using assms(3-5) by (auto simp: authenticate_envelope_def split: prod.splits sum.splits option.splits)
qed

lemma authenticate_envelope_Inr:
  assumes "fst (authenticate_envelope M data src r) = Inr (InAudio msg)"
  shows "\<exists>c hop. is_allowed r src \<and> open_envelope M data r = Inr (c, in_sender msg, hop, in_packet msg)
    \<and> (h_type (p_header (in_packet msg)) = Audio \<or> h_type (p_header (in_packet msg)) = AudioFec)
    \<and> (case hop of None \<Rightarrow> True | Some h \<Rightarrow> 1 \<le> h \<and> h \<le> MAX_RELAY_HOPS)"
  using assms
  by (auto simp: authenticate_envelope_def split: prod.splits sum.splits option.splits if_splits)

lemma open_envelope_mac:
  assumes mac: "\<And>k m. length (mc_mac M k m) = 32" and op: "open_envelope M data r = Inr e"
  shows "drop (length data - 16) data = take 16 (mc_mac M (mk_auth (re_keys r)) (take (length data - 16) data))"
proof -
  from op obtain p where d: "decode_bounded (mc_crc M) data MAX_RELAY_PACKET_SIZE = Inr p"
    and ok: "fst (open_packet (mc_mac M) (mc_ks M) (mc_crc M) (re_keys r) p)"
    by (auto simp: open_envelope_def case_prod_beta split: sum.splits if_splits)
  from ok have "verify_auth (mc_mac M) (re_keys r) p" by (simp add: open_packet_def Let_def split: if_splits)
  with verify_auth_wire [OF mac decode_bounded_Inr(1) [OF d]] decode_bounded_Inr(2) [OF d] show ?thesis by simp
qed

lemma forward_targets_hops:
  "forward_targets hash src hops r = Some ts \<Longrightarrow> t \<in> set ts \<Longrightarrow> hops < MAX_RELAY_HOPS"
  by (auto simp: forward_targets_def not_le split: option.splits if_splits)

lemma length_update_present: "k \<in> fst ` set xs \<Longrightarrow> length (AList.update k v xs) = length xs"
  by (induction xs) auto

lemma hop_mask: "n < MAX_RELAY_HOPS \<Longrightarrow> (n + 1) AND RELAY_HOP_MASK = n + 1 \<and> 1 \<le> n + 1 \<and> n + 1 \<le> MAX_RELAY_HOPS"
proof -
  assume n: "n < MAX_RELAY_HOPS"
  then have "unat n < 5" by (simp add: word_less_nat_alt MAX_RELAY_HOPS_def)
  then have "unat n \<in> {0, 1, 2, 3, 4}" by auto
  then have "n \<in> {0, 1, 2, 3, 4}" by (simp add: word_unat_eq_iff)
  then show ?thesis by (auto simp: RELAY_HOP_MASK_def MAX_RELAY_HOPS_def)
qed

section \<open>Connections\<close>

text \<open>Every inbound connection is counted.\<close>

definition conns_ok :: "cascade_node \<Rightarrow> bool" where
  "conns_ok n \<longleftrightarrow> distinct (map fst (cn_conns n)) \<and> re_inbound_tcp (cn_relay n) = length (cn_conns n)
     \<and> length (cn_conns n) \<le> MAX_INBOUND_TCP"

lemma authenticate_inbound_tcp [simp]:
  "re_inbound_tcp (snd (authenticate_envelope M data src r)) = re_inbound_tcp r"
  "re_inbound_tcp (snd (authenticate_hello M data remote r)) = re_inbound_tcp r"
proof -
  show "re_inbound_tcp (snd (authenticate_envelope M data src r)) = re_inbound_tcp r"
    by (cases rule: authenticate_envelope_cases [of M data src r]) auto
  show "re_inbound_tcp (snd (authenticate_hello M data remote r)) = re_inbound_tcp r"
    by (cases rule: authenticate_hello_cases [of M data remote r]) auto
qed

lemma receivers_inbound_tcp [simp]:
  "re_inbound_tcp (fst (receive_udp M q now data src r)) = re_inbound_tcp r"
  "re_inbound_tcp (fst (serve_tcp_frame M q now data src r)) = re_inbound_tcp r"
  "re_inbound_tcp (link_frame M now data src r) = re_inbound_tcp r"
proof -
  obtain a r' where a: "authenticate_envelope M data src r = (a, r')" by fastforce
  have r': "re_inbound_tcp r' = re_inbound_tcp r" using authenticate_inbound_tcp(1) [of M data src r] a by simp
  show "re_inbound_tcp (fst (receive_udp M q now data src r)) = re_inbound_tcp r"
    by (simp add: receive_udp_def a r' case_prod_beta Let_def split: sum.split inbound.split)
  show "re_inbound_tcp (fst (serve_tcp_frame M q now data src r)) = re_inbound_tcp r"
    by (simp add: serve_tcp_frame_def a r' case_prod_beta Let_def split: sum.split inbound.split cascade_control.split)
  show "re_inbound_tcp (link_frame M now data src r) = re_inbound_tcp r"
    by (simp add: link_frame_def a r' split: sum.split inbound.split cascade_control.split option.split)
qed

lemma length_delete_present:
  "distinct (map fst xs) \<Longrightarrow> map_of xs k = Some v \<Longrightarrow> length (AList.delete k xs) = length xs - 1"
proof (induction xs)
  case (Cons x xs)
  show ?case
  proof (cases "fst x = k")
    case True
    with Cons.prems have "k \<notin> fst ` set xs" by auto
    with True show ?thesis by (cases x) (simp add: delete_idem)
  next
    case False
    with Cons have "length (AList.delete k xs) = length xs - 1" "xs \<noteq> []" by (auto simp: case_prod_beta split: if_splits)
    with False show ?thesis by (cases x; cases xs) simp_all
  qed
qed simp

lemma conns_ok_tcp:
  "conns_ok n \<Longrightarrow> conns_ok (tcp_accept c remote n)"
  "conns_ok n \<Longrightarrow> conns_ok (tcp_close c n)"
proof -
  show "conns_ok n \<Longrightarrow> conns_ok (tcp_accept c remote n)"
    by (auto simp: conns_ok_def tcp_accept_def Let_def map_of_eq_None_iff)
  show "conns_ok n \<Longrightarrow> conns_ok (tcp_close c n)"
    by (auto simp: conns_ok_def tcp_close_def Let_def length_delete_present distinct_delete)
qed

lemma conns_ok_step:
  assumes "conns_ok n"
  shows "conns_ok (fst (cascade_step M q now i n))"
proof (cases i)
  case (TcpFrame c data)
  show ?thesis
  proof (cases "map_of (cn_conns n) c")
    case None
    with TcpFrame assms show ?thesis by (simp add: tcp_frame_def)
  next
    case (Some conn)
    then have c: "c \<in> fst ` set (cn_conns n)" by (auto dest: map_of_SomeD intro: rev_image_eqI)
    show ?thesis
    proof (cases conn)
      case (AwaitHello remote)
      obtain a r' where a: "authenticate_hello M data remote (cn_relay n) = (a, r')" by fastforce
      have "re_inbound_tcp r' = re_inbound_tcp (cn_relay n)"
        using authenticate_inbound_tcp(2) [of M data remote "cn_relay n"] a by simp
      with assms have ok: "conns_ok (n\<lparr>cn_relay := r'\<rparr>)" by (simp add: conns_ok_def)
      with TcpFrame Some AwaitHello a c conns_ok_tcp(2) [OF ok, of c] show ?thesis
        by (auto simp: tcp_frame_def conns_ok_def length_update_present distinct_update split: sum.split)
    next
      case (Serving peer)
      with TcpFrame Some assms show ?thesis
        by (simp add: tcp_frame_def conns_ok_def case_prod_beta Let_def)
    qed
  qed
next
  case (TcpAccept c remote)
  with assms show ?thesis by (simp add: conns_ok_tcp)
next
  case (TcpClosed c)
  with assms show ?thesis by (simp add: conns_ok_tcp)
qed (use assms in \<open>auto simp: conns_ok_def case_prod_beta Let_def link_hello_def\<close>)

section \<open>Properties\<close>

text \<open>The state a sequence of inputs leads to.\<close>

fun cascade_run ::
  "media_crypto \<Rightarrow> (socket_addr \<Rightarrow> bool) \<Rightarrow> (instant \<times> cascade_input) list \<Rightarrow> cascade_node \<Rightarrow> cascade_node" where
  "cascade_run M q [] n = n"
| "cascade_run M q ((now, i) # is) n = cascade_run M q is (fst (cascade_step M q now i n))"


text \<open>
  C35: relayed audio is authentic. A packet handed to the media node was read from a peer on the allow
  list, it is audio, the last 16 bytes of the envelope are the truncated MAC, under the cluster key, of
  every byte before them, and the envelope has travelled between one and five hops.
\<close>

theorem cascade_authentic:
  assumes "\<And>k m. length (mc_mac M k m) = 32" and "Handed u p \<in> set (snd (cascade_step M q now i n))"
  shows "\<exists>src data c hop. envelope_of i n = Some (src, data) \<and> is_allowed (cn_relay n) src
    \<and> open_envelope M data (cn_relay n) = Inr (c, u, hop, p)
    \<and> (h_type (p_header p) = Audio \<or> h_type (p_header p) = AudioFec)
    \<and> (case hop of None \<Rightarrow> True | Some h \<Rightarrow> 1 \<le> h \<and> h \<le> MAX_RELAY_HOPS)
    \<and> drop (length data - 16) data =
        take 16 (mc_mac M (mk_auth (re_keys (cn_relay n))) (take (length data - 16) data))"
proof -
  from assms(2) obtain src data msg where env: "envelope_of i n = Some (src, data)"
    and ok: "fst (authenticate_envelope M data src (cn_relay n)) = Inr (InAudio msg)"
    and up: "u = in_sender msg" "p = in_packet msg"
    by (rule cascade_step_handed)
  from authenticate_envelope_Inr [OF ok] obtain c hop where op: "is_allowed (cn_relay n) src"
    "open_envelope M data (cn_relay n) = Inr (c, u, hop, p)"
    "h_type (p_header p) = Audio \<or> h_type (p_header p) = AudioFec"
    "case hop of None \<Rightarrow> True | Some h \<Rightarrow> 1 \<le> h \<and> h \<le> MAX_RELAY_HOPS"
    unfolding up by blast
  with env open_envelope_mac [OF assms(1) op(2)] show ?thesis by blast
qed




text \<open>
  C38: inbound connections are counted exactly and never exceed the limit, however many are opened,
  refused, closed or dropped for a bad first frame.
\<close>

theorem cascade_connections:
  assumes "cn_conns n = []" and "re_inbound_tcp (cn_relay n) = 0"
  shows "re_inbound_tcp (cn_relay (cascade_run M queue_ok inputs n)) = length (cn_conns (cascade_run M queue_ok inputs n))
    \<and> length (cn_conns (cascade_run M queue_ok inputs n)) \<le> MAX_INBOUND_TCP"
proof -
  have "conns_ok m \<Longrightarrow> conns_ok (cascade_run M queue_ok inputs m)" for m
    by (induction M queue_ok inputs m rule: cascade_run.induct) (simp_all add: conns_ok_step)
  moreover have "conns_ok n" using assms by (simp add: conns_ok_def)
  ultimately show ?thesis by (simp add: conns_ok_def)
qed

section \<open>A sample run\<close>

definition sample_media :: media_crypto where
  "sample_media = \<lparr> mc_mac = (\<lambda>k m. replicate 32 (of_nat (length m) + 7)), mc_ks = (\<lambda>k v i. of_nat i + 3),
     mc_crc = (\<lambda>b. of_nat (length b)) \<rparr>"

definition sample_addr :: "u16 \<Rightarrow> socket_addr" where
  "sample_addr port = socket_new (V4 0x0A000001) port"

text \<open>A hub at port 1 between the nodes at ports 2 and 3, for the channel with id 5.\<close>

definition sample_relay :: cascade_relay where
  "sample_relay = \<lparr> re_routes = [], re_by_hash = [],
     re_allowed = [(sample_addr 2, wide_default), (sample_addr 3, wide_default)],
     re_static = [sample_addr 2, sample_addr 3], re_dynamic = [],
     re_links = [(sample_addr 2, link_default), (sample_addr 3, link_default)], re_tcp_links = [],
     re_tcp_enabled = True, re_keys = sample_keys, re_ssrc = 9, re_counter = 100, re_dropped = [],
     re_inbound_tcp = 0, re_advertised = [], re_local_addr = sample_addr 1, re_started = 0,
     re_probe_interval = 1000000000 \<rparr>"

definition sample_route :: channel_route where
  "sample_route = \<lparr> ro_origin = [], ro_forward = [(sample_addr 2, [sample_addr 3])] \<rparr>"

definition sample_hub :: cascade_relay where
  "sample_hub = set_channel_route (mc_crc sample_media) 5 sample_route sample_relay"

definition sample_envelope :: bytes where
  "sample_envelope = seal (mc_mac sample_media) (mc_ks sample_media) (mc_crc sample_media)
     (relay_envelope (mc_crc sample_media) (audio 1 960 7 16 [10, 20]) 8 41 77) sample_keys"

definition sample_node :: cascade_node where
  "sample_node = \<lparr> cn_relay = sample_hub, cn_conns = [] \<rparr>"

text \<open>The same envelope over UDP, again over UDP, and over a TCP link of the same peer.\<close>

definition sample_inputs :: "(instant \<times> cascade_input) list" where
  "sample_inputs =
     (let hello = seal (mc_mac sample_media) (mc_ks sample_media) (mc_crc sample_media)
          (relay_envelope (mc_crc sample_media) (control_to_packet (Hello (sample_addr 2))) 8 42 0) sample_keys
      in [(0, UdpDatagram sample_envelope (sample_addr 2)), (1, UdpDatagram sample_envelope (sample_addr 2)),
          (2, TcpAccept 0 (sample_addr 50000)), (3, TcpFrame 0 hello), (4, TcpFrame 0 sample_envelope)])"

lemma sample_windows: "map_of (re_allowed (cn_relay sample_node)) a = Some w \<Longrightarrow> w = wide_default"
  by (auto simp: sample_node_def sample_hub_def sample_relay_def split: if_splits)

lemma sample_handed:
  "handed_envelopes sample_media (\<lambda>_. True) sample_inputs sample_node = [(sample_addr 2, 41)]"
  by code_simp


lemma cascade_sample_step:
  "snd (cascade_step sample_media (\<lambda>_. True) 0 (UdpDatagram sample_envelope (sample_addr 2)) sample_node) =
     [Sent (SendUdp (sample_addr 3) (seal (mc_mac sample_media) (mc_ks sample_media) (mc_crc sample_media)
        (relay_envelope_hop (mc_crc sample_media) (audio 1 960 7 16 [10, 20]) 9 100 77 2) sample_keys)),
      Handed 77 (plain (mc_crc sample_media) (audio 1 960 7 16 [10, 20]))]"
  by code_simp

lemma sample_mac: "length (mc_mac sample_media k m) = 32"
  by (simp add: sample_media_def)

theorem cascade_authentic_witness:
  "Handed 77 (plain (mc_crc sample_media) (audio 1 960 7 16 [10, 20])) \<in>
     set (snd (cascade_step sample_media (\<lambda>_. True) 0 (UdpDatagram sample_envelope (sample_addr 2)) sample_node))
   \<and> is_allowed (cn_relay sample_node) (sample_addr 2)
   \<and> drop (length sample_envelope - 16) sample_envelope =
       take 16 (mc_mac sample_media (mk_auth sample_keys) (take (length sample_envelope - 16) sample_envelope))"
proof -
  have h: "Handed 77 (plain (mc_crc sample_media) (audio 1 960 7 16 [10, 20])) \<in>
     set (snd (cascade_step sample_media (\<lambda>_. True) 0 (UdpDatagram sample_envelope (sample_addr 2)) sample_node))"
    by (simp only: cascade_sample_step) simp
  have "re_keys (cn_relay sample_node) = sample_keys"
    by (simp add: sample_node_def sample_hub_def sample_relay_def)
  with cascade_authentic [OF sample_mac h] h show ?thesis by auto
qed

lemma sample_targets:
  "map_of (re_by_hash sample_hub) 16 = Some 5"
  "map_of (re_routes sample_hub) 5 = Some (usable_route (is_allowed sample_hub) sample_route)"
  "forward_targets 16 (sample_addr 2) 1 sample_hub = Some [sample_addr 3]"
  by code_simp+


definition sample_next :: cascade_relay where
  "sample_next = sample_relay\<lparr>re_allowed := [(sample_addr 1, wide_default)]\<rparr>"

definition sample_msg :: inbound_relay where
  "sample_msg = \<lparr> in_sender = 77, in_hops = 1, in_packet = plain (mc_crc sample_media) (audio 1 960 7 16 [10, 20]) \<rparr>"

lemma sample_forward:
  "snd (forward_inbound sample_media (\<lambda>_. True) 0 (sample_addr 2) sample_msg sample_hub) =
     [SendUdp (sample_addr 3) (seal (mc_mac sample_media) (mc_ks sample_media) (mc_crc sample_media)
        (relay_envelope_hop (mc_crc sample_media) (audio 1 960 7 16 [10, 20]) 9 100 77 2) sample_keys)]"
  by code_simp


theorem cascade_connections_witness:
  "re_inbound_tcp (cn_relay (cascade_run sample_media (\<lambda>_. True) sample_inputs sample_node)) =
     length (cn_conns (cascade_run sample_media (\<lambda>_. True) sample_inputs sample_node))
   \<and> length (cn_conns (cascade_run sample_media (\<lambda>_. True) sample_inputs sample_node)) \<le> MAX_INBOUND_TCP"
  by (rule cascade_connections) (simp_all add: sample_node_def sample_hub_def sample_relay_def)

end
