(* ===== verification/Spec2Isabelle.thy ===== *)
theory Spec2Isabelle
  imports Packet Replay Framing Jitter G711 Turn_Service Cascade_Node
begin

text \<open>
  \<^bold>\<open>Aurix voice infrastructure.\<close> Aurix is a voice-chat server. Clients send Opus frames in \<^verbatim>\<open>AURX\<close>
  datagrams to a media node, which hands them to the other participants of a channel; nodes relay to
  each other over the cascade; clients behind a NAT use the built-in TURN server; recordings pass a
  reordering buffer. This library models the protocol core: what arrives from the network, what is
  accepted, what is sent on its behalf.

  \<^bold>\<open>Theories.\<close> Names of files are relative to \<^verbatim>\<open>src/crates/\<close>; definitions keep the names of the
  functions they model, with a prefix where HOL already has the name.

  \<^item> \<open>Prelude\<close>: machine integers, bytes, big-endian encodings. \<open>Rust_Std\<close>: UTF-8 validity, number
    parsing and printing, string splitting as the standard library does them. \<open>Ordered_Map\<close>: a
    \<^verbatim>\<open>BTreeMap\<close> as a sorted association list.
  \<^item> \<open>Media_Keys\<close> (\<^verbatim>\<open>aurix-common/src/crypto.rs\<close>): key derivation, IVs, counter mode.
  \<^item> \<open>Packet\<close> (\<^verbatim>\<open>aurix-common/src/protocol.rs\<close>): headers, encoding, decoding, tags, sealing, audio
    levels, downlink metadata, session binds and relay envelopes.
  \<^item> \<open>Replay\<close> (\<^verbatim>\<open>protocol.rs\<close>): both anti-replay windows behind the locale \<open>replay_window\<close>.
  \<^item> \<open>Framing\<close> (\<^verbatim>\<open>aurix-common/src/framing.rs\<close>, \<^verbatim>\<open>aurix-media/src/tls.rs\<close>): stream frames, the
    incremental decoder, the reader and writer of a TLS tunnel.
  \<^item> \<open>Jitter\<close> (\<^verbatim>\<open>aurix-common/src/jitter_buffer.rs\<close>), \<open>G711\<close> (\<^verbatim>\<open>aurix-common/src/g711.rs\<close>),
    \<open>Net_Addr\<close> (\<^verbatim>\<open>aurix-common/src/addr.rs\<close>).
  \<^item> \<open>Stun\<close> (\<^verbatim>\<open>aurix-turn/src/stun.rs\<close>), \<open>Allocation\<close> (\<^verbatim>\<open>allocation.rs\<close>), \<open>Turn_Auth\<close> and \<open>Turn\<close>
    (\<^verbatim>\<open>turn.rs\<close>, credentials in \<^verbatim>\<open>crypto.rs\<close>), \<open>Turn_Server\<close> (\<^verbatim>\<open>server.rs\<close>): every request handler of
    the TURN server as a function from the handler's state to the new state and the datagrams it
    sends, and the server's step relation. \<open>Turn_Invariant\<close>, \<open>Turn_Safety\<close> and \<open>Turn_Service\<close> hold
    the proofs about it.
  \<^item> \<open>Cascade_Link\<close> and \<open>Cascade_Relay\<close> (\<^verbatim>\<open>aurix-media/src/cascade_link.rs\<close>, \<^verbatim>\<open>cascade.rs\<close>): link
    measurements, routes, forwarding, authentication of envelopes; \<open>Cascade_Node\<close>: the TCP fallback
    and the steps of a running node.

  \<^bold>\<open>Conventions.\<close> A struct is a record, an enum a datatype, a machine integer a word of its width; a
  fallible function returns a sum with the error on the left, a panic is \<open>None\<close>. Time is an argument,
  in nanoseconds or seconds as the source has it. Hash maps and sets are association lists and lists.
  Strings are their UTF-8 bytes. HMAC, AES, digests, CRC, base64 and the operating system are
  parameters; hypotheses on them are lengths of digests and injectivity where named. Handlers are
  atomic: the interleaving of asynchronous tasks inside one handler is not modelled, the order of
  handlers is arbitrary.

  \<^bold>\<open>What is shown.\<close> Decoders accept exactly the images of the encoders, and tags cover every byte that
  is read. Replay windows refine the set of accepted counters and never accept twice. The stream
  reader does not depend on how the stream is cut. The recording buffer writes in order, within
  bounds, and where it can repeat a packet. The TURN server relays to a peer only what an authenticated
  client asked for within the permission's lifetime, keeps its limits in every reachable state, serves
  accepted permissions, and leaves its state alone for unauthenticated requests. The cascade hands each
  relayed envelope on at most once, only from allowed peers with a valid tag; what one hub forwards the
  next node accepts; forwarding stops at the hop limit.

  \<^bold>\<open>Bounds.\<close> No definition needs fuel: loops are structural or have a measure. The port search of the
  TURN server is bounded by its own 256 attempts, and the theorem about it says when that is enough.

  \<^bold>\<open>Not modelled.\<close> Sockets, timers, TLS, WebRTC and QUIC stacks, logging and metrics. The database and
  Redis, and with them the control plane's managers, the REST API and the WebSocket signalling: their
  state lives in the queries. Floating-point audio (mixing, spatial gains, effects, noise reduction)
  and the Opus codec. JWT and OIDC libraries. The client library's audio devices and bindings, the SDKs
  in other languages, the dashboard, the command line and the load tests.
\<close>

end
